theory Spec2Isabelle
  imports Main "HOL-Library.AList"
begin

section \<open>Python values returned by plugin hooks\<close>

text \<open>
  The registries of \<^verbatim>\<open>napari/plugins/__init__.py\<close> receive whatever a plugin hook
  returns. The constructors below are the kinds of value the code tells apart:
  \<^verbatim>\<open>callable(x)\<close>, \<^verbatim>\<open>isinstance(x, FunctionType)\<close>, \<^verbatim>\<open>isinstance(x, tuple)\<close>,
  \<^verbatim>\<open>isinstance(x, list)\<close>, \<^verbatim>\<open>isinstance(x, dict)\<close> and \<^verbatim>\<open>isinstance(x, (str, Path))\<close>.
  A plain function and a class carry their \<^verbatim>\<open>__name__\<close>; any other callable object
  (a \<^verbatim>\<open>functools.partial\<close>, an instance with \<^verbatim>\<open>__call__\<close>) may have none.
  A dict is an association list in insertion order, with string keys.
\<close>

datatype pyobj =
    PyNone
  | PyInt int
  | PyStr string
  | PyPath string
  | PyFunction string
  | PyClass string
  | PyCallable "string option"
  | PyTuple "pyobj list"
  | PyList "pyobj list"
  | PyDict "(string \<times> pyobj) list"

datatype py_error = KeyError | ValueError | AttributeError

type_synonym 'v pydict = "(string \<times> 'v) list"

fun callable :: "pyobj \<Rightarrow> bool" where
  "callable (PyFunction n) = True"
| "callable (PyClass n) = True"
| "callable (PyCallable n) = True"
| "callable x = False"

fun is_FunctionType :: "pyobj \<Rightarrow> bool" where
  "is_FunctionType (PyFunction n) = True"
| "is_FunctionType x = False"

fun is_tuple :: "pyobj \<Rightarrow> bool" where
  "is_tuple (PyTuple xs) = True"
| "is_tuple x = False"

fun is_list :: "pyobj \<Rightarrow> bool" where
  "is_list (PyList xs) = True"
| "is_list x = False"

fun is_dict :: "pyobj \<Rightarrow> bool" where
  "is_dict (PyDict d) = True"
| "is_dict x = False"

fun is_str_or_Path :: "pyobj \<Rightarrow> bool" where
  "is_str_or_Path (PyStr s) = True"
| "is_str_or_Path (PyPath s) = True"
| "is_str_or_Path x = False"

text \<open>\<^verbatim>\<open>x.__name__\<close>: an AttributeError where the object has no such attribute.\<close>

fun dunder_name :: "pyobj \<Rightarrow> py_error + string" where
  "dunder_name (PyFunction n) = Inr n"
| "dunder_name (PyClass n) = Inr n"
| "dunder_name (PyCallable (Some n)) = Inr n"
| "dunder_name x = Inl AttributeError"

text \<open>
  \<^verbatim>\<open>str(x)\<close>: the string itself for a \<^verbatim>\<open>str\<close>; for any other object the text Python
  prints for it, which is the parameter \<open>repr\<close>.
\<close>

fun py_str :: "(pyobj \<Rightarrow> string) \<Rightarrow> pyobj \<Rightarrow> string" where
  "py_str repr (PyStr s) = s"
| "py_str repr x = repr x"

text \<open>\<^verbatim>\<open>k in d\<close>, \<^verbatim>\<open>d.get(k, default)\<close> and \<^verbatim>\<open>d1.update(d2)\<close> on dicts.\<close>

definition has_key :: "'v pydict \<Rightarrow> string \<Rightarrow> bool" where
  "has_key d k = (map_of d k \<noteq> None)"

definition dict_get :: "'v pydict \<Rightarrow> string \<Rightarrow> 'v \<Rightarrow> 'v" where
  "dict_get d k dflt = (case map_of d k of None \<Rightarrow> dflt | Some v \<Rightarrow> v)"

definition dict_update :: "'v pydict \<Rightarrow> 'v pydict \<Rightarrow> 'v pydict" where
  "dict_update d e = fold (\<lambda>(k, v). AList.update k v) e d"

text \<open>\<^verbatim>\<open>registry[pname][name] = v\<close>, with \<^verbatim>\<open>registry[pname]\<close> created empty when missing.\<close>

definition store_item :: "string \<Rightarrow> string \<Rightarrow> 'v \<Rightarrow> 'v pydict pydict \<Rightarrow> 'v pydict pydict" where
  "store_item pname name v registry =
     AList.update pname (AList.update name v (dict_get registry pname [])) registry"

text \<open>The number of entries stored under a key.\<close>

definition entries_for :: "'v pydict \<Rightarrow> string \<Rightarrow> nat" where
  "entries_for d k = length (filter (\<lambda>kv. fst kv = k) d)"

record HookImplementation =
  plugin_name :: string
  enabled :: bool

text \<open>The warnings the module emits with \<^verbatim>\<open>warn\<close>, each with the values its message formats.\<close>

datatype warning =
    InvalidTuple string string
  | NonCallableWidget string string pyobj
  | InvalidKwargs string string string
  | DockWidgetOverwritten string string
  | NonCallableFunction string string pyobj bool
  | FunctionWidgetOverwritten string string
  | NonDictSampleData string string
  | SampleMissingKeys string string string
  | InvalidSampleData string string string pyobj

section \<open>The dock widget registry\<close>

type_synonym dock_registry = "(pyobj \<times> pyobj pydict) pydict pydict"

definition dock_hook_name :: string where
  "dock_hook_name = ''`napari_experimental_provide_dock_widget`''"

text \<open>
  The head of the loop body of \<^verbatim>\<open>register_dock_widget\<close>: \<open>None\<close> for the empty tuple,
  else \<^verbatim>\<open>(_cls, kwargs)\<close>.
\<close>

fun unpack_arg :: "pyobj \<Rightarrow> (pyobj \<times> pyobj) option" where
  "unpack_arg (PyTuple []) = None"
| "unpack_arg (PyTuple [c]) = Some (c, PyDict [])"
| "unpack_arg (PyTuple (c # k # rest)) = Some (c, k)"
| "unpack_arg x = Some (x, PyDict [])"

text \<open>
  \<^verbatim>\<open>str(kwargs.get('name', '')) or camel_to_spaces(_cls.__name__)\<close>. The function
  \<^verbatim>\<open>camel_to_spaces\<close> of \<^verbatim>\<open>napari.utils.misc\<close> is the parameter \<open>cts\<close>.
\<close>

definition widget_name_of ::
  "(string \<Rightarrow> string) \<Rightarrow> (pyobj \<Rightarrow> string) \<Rightarrow> pyobj \<Rightarrow> pyobj pydict \<Rightarrow> py_error + string" where
  "widget_name_of cts repr cls kwargs =
     (let explicit = py_str repr (dict_get kwargs ''name'' (PyStr ''''))
      in if explicit \<noteq> [] then Inr explicit
         else (case dunder_name cls of Inl e \<Rightarrow> Inl e | Inr n \<Rightarrow> Inr (cts n)))"

text \<open>One iteration of the loop of \<^verbatim>\<open>register_dock_widget\<close>.\<close>

definition dock_widget_step ::
  "(string \<Rightarrow> string) \<Rightarrow> (pyobj \<Rightarrow> string) \<Rightarrow> string \<Rightarrow> pyobj \<Rightarrow>
   dock_registry \<times> warning list \<Rightarrow> py_error + dock_registry \<times> warning list" where
  "dock_widget_step cts repr pname arg s =
     (case s of (dock_widgets, ws) \<Rightarrow>
      (case unpack_arg arg of
         None \<Rightarrow> Inr (dock_widgets, ws @ [InvalidTuple pname dock_hook_name])
       | Some (cls, kwargs) \<Rightarrow>
           if \<not> callable cls
           then Inr (dock_widgets, ws @ [NonCallableWidget pname dock_hook_name cls])
           else (case kwargs of
               PyDict kw \<Rightarrow>
                 (case widget_name_of cts repr cls kw of
                    Inl e \<Rightarrow> Inl e
                  | Inr name \<Rightarrow>
                      (case map_of dock_widgets pname of
                         None \<Rightarrow>
                           Inr (AList.update pname [(name, (cls, kw))] dock_widgets, ws)
                       | Some wd \<Rightarrow>
                           Inr (AList.update pname (AList.update name (cls, kw) wd) dock_widgets,
                                if has_key wd name
                                then ws @ [DockWidgetOverwritten pname name] else ws)))
             | other \<Rightarrow>
                 (case dunder_name cls of
                    Inl e \<Rightarrow> Inl e
                  | Inr cn \<Rightarrow> Inr (dock_widgets, ws @ [InvalidKwargs pname dock_hook_name cn])))))"

fun dock_widget_loop ::
  "(string \<Rightarrow> string) \<Rightarrow> (pyobj \<Rightarrow> string) \<Rightarrow> string \<Rightarrow> pyobj list \<Rightarrow>
   dock_registry \<times> warning list \<Rightarrow> py_error + dock_registry \<times> warning list" where
  "dock_widget_loop cts repr pname [] s = Inr s"
| "dock_widget_loop cts repr pname (arg # args) s =
     (case dock_widget_step cts repr pname arg s of
        Inl e \<Rightarrow> Inl e
      | Inr s' \<Rightarrow> dock_widget_loop cts repr pname args s')"

definition register_dock_widget ::
  "(string \<Rightarrow> string) \<Rightarrow> (pyobj \<Rightarrow> string) \<Rightarrow> pyobj \<Rightarrow> HookImplementation \<Rightarrow>
   dock_registry \<times> warning list \<Rightarrow> py_error + dock_registry \<times> warning list" where
  "register_dock_widget cts repr args hookimpl s =
     dock_widget_loop cts repr (plugin_name hookimpl)
       (case args of PyList xs \<Rightarrow> xs | other \<Rightarrow> [args]) s"

text \<open>
  \<^verbatim>\<open>get_plugin_widget(plugin_name, widget_name=None)\<close>. \<^verbatim>\<open>not plg_wdgs\<close> holds for a
  missing plugin and for an empty dict; \<^verbatim>\<open>not widget_name\<close> holds for \<^verbatim>\<open>None\<close> and for
  the empty string.
\<close>

definition get_plugin_widget ::
  "dock_registry \<Rightarrow> string \<Rightarrow> string option \<Rightarrow> py_error + (pyobj \<times> pyobj pydict)" where
  "get_plugin_widget dock_widgets pname widget_name =
     (case map_of dock_widgets pname of
        None \<Rightarrow> Inl KeyError
      | Some plg_wdgs \<Rightarrow>
          (case plg_wdgs of
             [] \<Rightarrow> Inl KeyError
           | first # others \<Rightarrow>
               (case (if widget_name = None \<or> widget_name = Some []
                      then (if length plg_wdgs > 1 then Inl ValueError else Inr (fst first))
                      else (case widget_name of
                              None \<Rightarrow> Inl KeyError
                            | Some n \<Rightarrow> if \<not> has_key plg_wdgs n then Inl KeyError else Inr n)) of
                  Inl e \<Rightarrow> Inl e
                | Inr n \<Rightarrow> (case map_of plg_wdgs n of None \<Rightarrow> Inl KeyError | Some w \<Rightarrow> Inr w))))"

section \<open>The function widget registry\<close>

type_synonym function_registry = "pyobj pydict pydict"

definition function_hook_name :: string where
  "function_hook_name = ''`napari_experimental_provide_function`''"

text \<open>\<^verbatim>\<open>s.replace('_', ' ')\<close>\<close>

definition replace_underscores :: "string \<Rightarrow> string" where
  "replace_underscores s = map (\<lambda>c. if c = CHR ''_'' then CHR '' '' else c) s"

text \<open>
  One iteration of the loop of \<^verbatim>\<open>register_function_widget\<close>. The warning for a rejected
  item carries the item and whether the hint about tuples was appended to the message.
\<close>

definition function_widget_step ::
  "string \<Rightarrow> pyobj \<Rightarrow> function_registry \<times> warning list \<Rightarrow>
   py_error + function_registry \<times> warning list" where
  "function_widget_step pname func s =
     (case s of (function_widgets, ws) \<Rightarrow>
        if \<not> is_FunctionType func
        then Inr (function_widgets,
                  ws @ [NonCallableFunction pname function_hook_name func (is_tuple func)])
        else (case dunder_name func of
                Inl e \<Rightarrow> Inl e
              | Inr n \<Rightarrow>
                  (let name = replace_underscores n in
                   (case map_of function_widgets pname of
                      None \<Rightarrow> Inr (AList.update pname [(name, func)] function_widgets, ws)
                    | Some fd \<Rightarrow>
                        Inr (AList.update pname (AList.update name func fd) function_widgets,
                             if has_key fd name
                             then ws @ [FunctionWidgetOverwritten pname name] else ws)))))"

fun function_widget_loop ::
  "string \<Rightarrow> pyobj list \<Rightarrow> function_registry \<times> warning list \<Rightarrow>
   py_error + function_registry \<times> warning list" where
  "function_widget_loop pname [] s = Inr s"
| "function_widget_loop pname (func # funcs) s =
     (case function_widget_step pname func s of
        Inl e \<Rightarrow> Inl e
      | Inr s' \<Rightarrow> function_widget_loop pname funcs s')"

definition register_function_widget ::
  "pyobj \<Rightarrow> HookImplementation \<Rightarrow> function_registry \<times> warning list \<Rightarrow>
   py_error + function_registry \<times> warning list" where
  "register_function_widget args hookimpl s =
     function_widget_loop (plugin_name hookimpl)
       (case args of PyList xs \<Rightarrow> xs | other \<Rightarrow> [args]) s"

section \<open>The sample data registry\<close>

type_synonym sample_registry = "pyobj pydict pydict pydict"

definition sample_hook_name :: string where
  "sample_hook_name = ''napari_provide_sample_data''"

text \<open>
  The first half of the loop body of \<^verbatim>\<open>register_sample_data\<close>: a dict is kept as it is
  when it has both required keys (\<open>None\<close> otherwise), any other value is wrapped.
\<close>

fun normalize_datum :: "string \<Rightarrow> pyobj \<Rightarrow> pyobj pydict option" where
  "normalize_datum name (PyDict d) =
     (if \<not> has_key d ''data'' \<or> \<not> has_key d ''display_name'' then None else Some d)"
| "normalize_datum name datum = Some [(''data'', datum), (''display_name'', PyStr name)]"

text \<open>The loop over \<^verbatim>\<open>data.items()\<close>, building \<^verbatim>\<open>_data\<close>.\<close>

fun sample_data_loop ::
  "string \<Rightarrow> pyobj pydict \<Rightarrow> pyobj pydict pydict \<times> warning list \<Rightarrow>
   py_error + pyobj pydict pydict \<times> warning list" where
  "sample_data_loop pname [] s = Inr s"
| "sample_data_loop pname ((name, datum) # items) (data', ws) =
     (case normalize_datum name datum of
        None \<Rightarrow>
          sample_data_loop pname items
            (data', ws @ [SampleMissingKeys sample_hook_name pname name])
      | Some d \<Rightarrow>
          (case map_of d ''data'' of
             None \<Rightarrow> Inl KeyError
           | Some v \<Rightarrow>
               if \<not> (callable v \<or> is_str_or_Path v)
               then sample_data_loop pname items
                      (data', ws @ [InvalidSampleData pname name sample_hook_name v])
               else sample_data_loop pname items (AList.update name d data', ws)))"

definition register_sample_data ::
  "pyobj \<Rightarrow> HookImplementation \<Rightarrow> sample_registry \<times> warning list \<Rightarrow>
   py_error + sample_registry \<times> warning list" where
  "register_sample_data data hookimpl s =
     (case s of (sample_data, ws) \<Rightarrow>
        (case data of
           PyDict items \<Rightarrow>
             (case sample_data_loop (plugin_name hookimpl) items ([], ws) of
                Inl e \<Rightarrow> Inl e
              | Inr (data', ws') \<Rightarrow>
                  Inr (AList.update (plugin_name hookimpl)
                         (dict_update (dict_get sample_data (plugin_name hookimpl) []) data')
                         sample_data, ws'))
         | other \<Rightarrow>
             Inr (sample_data,
                  ws @ [NonDictSampleData (plugin_name hookimpl) sample_hook_name])))"

text \<open>
  The loop of \<^verbatim>\<open>register_sample_data\<close> in closed form, for the proofs: what one entry
  of the mapping is stored as (\<open>None\<close> when it is discarded), the warning its rejection
  emits, and the dict \<^verbatim>\<open>_data\<close> after the loop.
\<close>

definition accepted_sample :: "string \<Rightarrow> pyobj \<Rightarrow> pyobj pydict option" where
  "accepted_sample name datum =
     (case normalize_datum name datum of
        None \<Rightarrow> None
      | Some d \<Rightarrow>
          (case map_of d ''data'' of
             None \<Rightarrow> None
           | Some v \<Rightarrow> if callable v \<or> is_str_or_Path v then Some d else None))"

definition sample_rejection :: "string \<Rightarrow> string \<Rightarrow> pyobj \<Rightarrow> warning list" where
  "sample_rejection pname name datum =
     (case normalize_datum name datum of
        None \<Rightarrow> [SampleMissingKeys sample_hook_name pname name]
      | Some d \<Rightarrow>
          (case map_of d ''data'' of
             None \<Rightarrow> []
           | Some v \<Rightarrow> if callable v \<or> is_str_or_Path v then []
                       else [InvalidSampleData pname name sample_hook_name v]))"

definition keep_accepted :: "pyobj pydict \<Rightarrow> pyobj pydict pydict \<Rightarrow> pyobj pydict pydict" where
  "keep_accepted items acc =
     fold (\<lambda>(n, x) a. case accepted_sample n x of None \<Rightarrow> a | Some d \<Rightarrow> AList.update n d a)
       items acc"

section \<open>The plugin manager's call order\<close>

text \<open>
  Modelled from the spec: the hook caller is a class of the package
  \<^verbatim>\<open>napari_plugin_engine\<close>, which is not part of the source. It is the spec's Hook
  Caller: the aggregation policy of its spec, and an ordered sequence of implementations
  (plugin name and enabled flag).
\<close>

record HookCaller =
  is_firstresult :: bool
  hookimpls :: "HookImplementation list"

text \<open>
  Modelled from the spec: \<^verbatim>\<open>get_hookimpls()\<close>, the spec's \<^verbatim>\<open>listImplementations\<close>,
  returns the sequence. \<^verbatim>\<open>call_order\<close> exports the reverse of this list as the call
  order, so the order of dispatch is the reverse of the list.
\<close>

definition get_hookimpls :: "HookCaller \<Rightarrow> HookImplementation list" where
  "get_hookimpls caller = hookimpls caller"

definition dispatch_order :: "HookCaller \<Rightarrow> HookImplementation list" where
  "dispatch_order caller = rev (get_hookimpls caller)"

text \<open>
  Modelled from the spec: \<^verbatim>\<open>get_plugin_implementation(name)\<close> looks up the
  implementation of the named plugin and raises KeyError when the plugin has none, the
  error that \<^verbatim>\<open>set_call_order\<close> catches.
\<close>

definition get_plugin_implementation :: "HookCaller \<Rightarrow> string \<Rightarrow> py_error + HookImplementation" where
  "get_plugin_implementation caller name =
     (case find (\<lambda>imp. plugin_name imp = name) (get_hookimpls caller) of
        None \<Rightarrow> Inl KeyError
      | Some imp \<Rightarrow> Inr imp)"

text \<open>
  Modelled from the spec: \<^verbatim>\<open>bring_to_front(order)\<close>, the spec's \<^verbatim>\<open>bringToFront\<close>,
  "reorders exactly the implementations named, placing them first in the given order;
  implementations not named retain their relative order after the named ones", and
  skips a name that is not registered. \<open>front_first\<close> does this on the order of
  dispatch: the implementations of the first name, then the same for the other names on
  what is left.
\<close>

fun front_first :: "string list \<Rightarrow> HookImplementation list \<Rightarrow> HookImplementation list" where
  "front_first [] impls = impls"
| "front_first (n # ns) impls =
     filter (\<lambda>imp. plugin_name imp = n) impls
       @ front_first ns (filter (\<lambda>imp. plugin_name imp \<noteq> n) impls)"

definition bring_to_front :: "string list \<Rightarrow> HookCaller \<Rightarrow> HookCaller" where
  "bring_to_front new_order caller =
     caller\<lparr>hookimpls := rev (front_first new_order (dispatch_order caller))\<rparr>"

text \<open>
  \<^verbatim>\<open>imp.enabled = b\<close> for the implementation that \<^verbatim>\<open>get_plugin_implementation\<close> returned:
  the object is shared with the hook caller's list, so the assignment changes it there.
\<close>

fun assign_enabled :: "string \<Rightarrow> bool \<Rightarrow> HookImplementation list \<Rightarrow> HookImplementation list" where
  "assign_enabled name b [] = []"
| "assign_enabled name b (imp # impls) =
     (if plugin_name imp = name then imp\<lparr>enabled := b\<rparr> # impls
      else imp # assign_enabled name b impls)"

text \<open>An entry \<^verbatim>\<open>{'plugin': ..., 'enabled': ...}\<close> of a call order record.\<close>

record call_order_entry =
  plugin :: string
  enabled_flag :: bool

type_synonym CallOrderDict = "call_order_entry list pydict"

text \<open>\<^verbatim>\<open>PluginManager.call_order\<close>: the loop over \<^verbatim>\<open>self.hooks.items()\<close>.\<close>

fun call_order_loop :: "HookCaller pydict \<Rightarrow> CallOrderDict \<Rightarrow> CallOrderDict" where
  "call_order_loop [] order = order"
| "call_order_loop ((spec_name, caller) # hooks) order =
     (if \<not> is_firstresult caller then call_order_loop hooks order
      else (let impls = get_hookimpls caller in
            if length impls > 1
            then call_order_loop hooks
                   (AList.update spec_name
                      (map (\<lambda>impl. \<lparr>plugin = plugin_name impl, enabled_flag = enabled impl\<rparr>)
                         (rev impls)) order)
            else call_order_loop hooks order))"

definition call_order :: "HookCaller pydict \<Rightarrow> CallOrderDict" where
  "call_order hooks = call_order_loop hooks []"

text \<open>
  \<^verbatim>\<open>PluginManager.set_call_order\<close>. The inner loop over the entries recorded for one
  spec collects \<^verbatim>\<open>order\<close>; only a KeyError of the lookup is caught.
\<close>

fun collect_order ::
  "HookCaller \<Rightarrow> call_order_entry list \<Rightarrow> string list \<Rightarrow> py_error + HookCaller \<times> string list" where
  "collect_order caller [] order = Inr (caller, order)"
| "collect_order caller (p # ps) order =
     (case get_plugin_implementation caller (plugin p) of
        Inl e \<Rightarrow> if e = KeyError then collect_order caller ps order else Inl e
      | Inr imp \<Rightarrow>
          collect_order
            (caller\<lparr>hookimpls := assign_enabled (plugin_name imp) (enabled_flag p) (hookimpls caller)\<rparr>)
            ps (order @ [plugin p]))"

definition reorder_caller :: "HookCaller \<Rightarrow> call_order_entry list \<Rightarrow> py_error + HookCaller" where
  "reorder_caller hook_caller entries =
     (case collect_order hook_caller entries [] of
        Inl e \<Rightarrow> Inl e
      | Inr (caller', order) \<Rightarrow>
          Inr (if order \<noteq> [] then bring_to_front order caller' else caller'))"

fun set_call_order :: "HookCaller pydict \<Rightarrow> CallOrderDict \<Rightarrow> py_error + HookCaller pydict" where
  "set_call_order [] new_order = Inr []"
| "set_call_order ((spec_name, hook_caller) # hooks) new_order =
     (case reorder_caller hook_caller (dict_get new_order spec_name []) of
        Inl e \<Rightarrow> Inl e
      | Inr caller' \<Rightarrow>
          (case set_call_order hooks new_order of
             Inl e \<Rightarrow> Inl e
           | Inr hooks' \<Rightarrow> Inr ((spec_name, caller') # hooks')))"

text \<open>
  For the statements and proofs about the call order: the entries \<^verbatim>\<open>call_order\<close> exports
  for one hook caller, its test for exporting them, the implementation an entry
  describes, and the two loops of \<^verbatim>\<open>set_call_order\<close> for one hook caller in closed form
  (the flags that the entries assign, then the reordering).
\<close>

definition exported_entries :: "HookCaller \<Rightarrow> call_order_entry list" where
  "exported_entries caller =
     map (\<lambda>impl. \<lparr>plugin = plugin_name impl, enabled_flag = enabled impl\<rparr>)
       (rev (get_hookimpls caller))"

definition needs_order :: "HookCaller \<Rightarrow> bool" where
  "needs_order caller = (is_firstresult caller \<and> length (get_hookimpls caller) > 1)"

definition recorded_impl :: "call_order_entry \<Rightarrow> HookImplementation" where
  "recorded_impl e = \<lparr>plugin_name = plugin e, enabled = enabled_flag e\<rparr>"

definition apply_flags :: "call_order_entry list \<Rightarrow> HookImplementation list \<Rightarrow> HookImplementation list" where
  "apply_flags entries impls =
     fold (\<lambda>e. assign_enabled (plugin e) (enabled_flag e)) entries impls"

definition reordered :: "HookCaller \<Rightarrow> call_order_entry list \<Rightarrow> HookCaller" where
  "reordered caller entries =
     (let order = filter (\<lambda>n. n \<in> plugin_name ` set (hookimpls caller)) (map plugin entries);
          caller' = caller\<lparr>hookimpls := apply_flags entries (hookimpls caller)\<rparr>
      in if order \<noteq> [] then bring_to_front order caller' else caller')"

text \<open>
  The entries of a record that \<^verbatim>\<open>set_call_order\<close> does not skip for a hook caller: those
  whose plugin has an implementation there.
\<close>

definition found_entries :: "HookCaller \<Rightarrow> call_order_entry list \<Rightarrow> call_order_entry list" where
  "found_entries caller entries =
     filter (\<lambda>e. plugin e \<in> plugin_name ` set (get_hookimpls caller)) entries"

section \<open>Looking up a plugin's dock widget\<close>

lemma get_plugin_widget_no_widgets:
  "map_of dw p = None \<or> map_of dw p = Some [] \<Longrightarrow> get_plugin_widget dw p wn = Inl KeyError"
  by (auto simp: get_plugin_widget_def)

lemma get_plugin_widget_ambiguous:
  "map_of dw p = Some ws \<Longrightarrow> length ws > 1 \<Longrightarrow> get_plugin_widget dw p None = Inl ValueError"
  by (cases ws) (auto simp: get_plugin_widget_def)

lemma get_plugin_widget_missing_name:
  "map_of dw p = Some ws \<Longrightarrow> n \<noteq> [] \<Longrightarrow> map_of ws n = None \<Longrightarrow>
   get_plugin_widget dw p (Some n) = Inl KeyError"
  by (cases ws) (auto simp: get_plugin_widget_def has_key_def)

lemma get_plugin_widget_single:
  "map_of dw p = Some [(n, w)] \<Longrightarrow> get_plugin_widget dw p None = Inr w"
  by (simp add: get_plugin_widget_def)

lemma get_plugin_widget_empty_name:
  "get_plugin_widget dw p (Some []) = get_plugin_widget dw p None"
  by (simp add: get_plugin_widget_def split: option.splits list.splits)

text \<open>
  C4 (as amended). \<^verbatim>\<open>get_plugin_widget\<close> raises KeyError when the plugin has registered
  no dock widgets (it is unknown, or its dict is empty), whatever the widget name;
  raises ValueError when the widget name is omitted and the plugin has more than one
  widget; raises KeyError when a non-empty widget name is given and the plugin has no
  widget of that name; and returns the (factory, options) pair of the only widget when
  the plugin has exactly one and the name is omitted.
\<close>

theorem get_plugin_widget_contract:
  "(map_of dw p = None \<or> map_of dw p = Some [] \<longrightarrow> get_plugin_widget dw p wn = Inl KeyError) \<and>
   (map_of dw p = Some ws \<and> length ws > 1 \<longrightarrow> get_plugin_widget dw p None = Inl ValueError) \<and>
   (map_of dw p = Some ws \<and> n \<noteq> [] \<and> map_of ws n = None \<longrightarrow>
      get_plugin_widget dw p (Some n) = Inl KeyError) \<and>
   (map_of dw p = Some [(n', w)] \<longrightarrow> get_plugin_widget dw p None = Inr w)"
  using get_plugin_widget_no_widgets [of dw p wn] get_plugin_widget_ambiguous [of dw p ws]
    get_plugin_widget_missing_name [of dw p ws n] get_plugin_widget_single [of dw p n' w]
  by blast

theorem get_plugin_widget_contract_witness:
  "get_plugin_widget [] ''pluginA'' (Some ''Widget A'') = Inl KeyError \<and>
   get_plugin_widget
     [(''pluginA'', [(''Widget A'', (PyClass ''WidgetA'', [])), (''Widget B'', (PyClass ''WidgetB'', []))])]
     ''pluginA'' None = Inl ValueError \<and>
   get_plugin_widget
     [(''pluginA'', [(''Widget A'', (PyClass ''WidgetA'', [])), (''Widget B'', (PyClass ''WidgetB'', []))])]
     ''pluginA'' (Some ''Widget C'') = Inl KeyError \<and>
   get_plugin_widget [(''pluginA'', [(''Widget A'', (PyClass ''WidgetA'', []))])] ''pluginA'' None
     = Inr (PyClass ''WidgetA'', [])"
  using get_plugin_widget_contract
    [of "[(''pluginA'', [(''Widget A'', (PyClass ''WidgetA'', [])), (''Widget B'', (PyClass ''WidgetB'', []))])]"
        "''pluginA''" "Some ''Widget C''"
        "[(''Widget A'', (PyClass ''WidgetA'', [])), (''Widget B'', (PyClass ''WidgetB'', []))]"
        "''Widget C''" "''Widget A''" "(PyClass ''WidgetA'', [])"]
    get_plugin_widget_contract
    [of "[]" "''pluginA''" "Some ''Widget A''" "[]" "''Widget A''" "''Widget A''" "(PyClass ''WidgetA'', [])"]
    get_plugin_widget_contract
    [of "[(''pluginA'', [(''Widget A'', (PyClass ''WidgetA'', []))])]" "''pluginA''" None "[]"
        "''Widget A''" "''Widget A''" "(PyClass ''WidgetA'', [])"]
  by simp

text \<open>
  The claim C4 as stated fails for the empty string: it is a widget name that is given,
  the plugin has no widget of that name, and the only widget is returned.
\<close>

theorem get_plugin_widget_empty_name_counterexample:
  "get_plugin_widget [(''pluginA'', [(''Widget A'', (PyClass ''WidgetA'', []))])] ''pluginA'' (Some '''')
     = Inr (PyClass ''WidgetA'', [])"
  by (simp add: get_plugin_widget_def)

text \<open>
  C10. An empty-string widget name is treated as an omitted one: the two calls give the
  same result for every registry; with exactly one widget the empty string returns it,
  and with more than one it raises ValueError, not the KeyError of a name not found.
\<close>

theorem get_plugin_widget_empty_string_as_omitted:
  "get_plugin_widget dw p (Some '''') = get_plugin_widget dw p None \<and>
   (map_of dw p = Some [(n, w)] \<longrightarrow> get_plugin_widget dw p (Some '''') = Inr w) \<and>
   (map_of dw p = Some ws \<and> length ws > 1 \<longrightarrow> get_plugin_widget dw p (Some '''') = Inl ValueError)"
  using get_plugin_widget_empty_name [of dw p] get_plugin_widget_single [of dw p n w]
    get_plugin_widget_ambiguous [of dw p ws]
  by simp

theorem get_plugin_widget_empty_string_as_omitted_witness:
  "get_plugin_widget [(''pluginA'', [(''Widget A'', (PyClass ''WidgetA'', []))])] ''pluginA'' (Some '''')
     = Inr (PyClass ''WidgetA'', []) \<and>
   get_plugin_widget
     [(''pluginA'', [(''Widget A'', (PyClass ''WidgetA'', [])), (''Widget B'', (PyClass ''WidgetB'', []))])]
     ''pluginA'' (Some '''') = Inl ValueError"
  using get_plugin_widget_empty_string_as_omitted
    [of "[(''pluginA'', [(''Widget A'', (PyClass ''WidgetA'', []))])]" "''pluginA''"
        "''Widget A''" "(PyClass ''WidgetA'', [])" "[]", THEN conjunct2]
    get_plugin_widget_empty_string_as_omitted
    [of "[(''pluginA'', [(''Widget A'', (PyClass ''WidgetA'', [])), (''Widget B'', (PyClass ''WidgetB'', []))])]"
        "''pluginA''" "''Widget A''" "(PyClass ''WidgetA'', [])"
        "[(''Widget A'', (PyClass ''WidgetA'', [])), (''Widget B'', (PyClass ''WidgetB'', []))]", THEN conjunct2]
  by simp

section \<open>Registering dock widgets, function widgets and sample data\<close>

lemma dock_widget_loop_append:
  "dock_widget_loop cts repr p (xs @ ys) s =
     (case dock_widget_loop cts repr p xs s of
        Inl e \<Rightarrow> Inl e
      | Inr s' \<Rightarrow> dock_widget_loop cts repr p ys s')"
  by (induction xs arbitrary: s) (auto split: sum.splits)

lemma dock_widget_step_non_callable:
  "unpack_arg item = Some (cls, kw) \<Longrightarrow> \<not> callable cls \<Longrightarrow>
   dock_widget_step cts repr p item (dw, ws)
     = Inr (dw, ws @ [NonCallableWidget p dock_hook_name cls])"
  by (simp add: dock_widget_step_def)

lemma dock_widget_step_accepted:
  "unpack_arg item = Some (cls, PyDict kw) \<Longrightarrow> callable cls \<Longrightarrow>
   widget_name_of cts repr cls kw = Inr name \<Longrightarrow>
   dock_widget_step cts repr p item (dw, ws)
     = Inr (store_item p name (cls, kw) dw,
            if has_key (dict_get dw p []) name then ws @ [DockWidgetOverwritten p name] else ws)"
  by (simp add: dock_widget_step_def store_item_def dict_get_def has_key_def split: option.splits)

lemma register_dock_widget_single:
  "\<not> is_list item \<Longrightarrow>
   register_dock_widget cts repr item h s = dock_widget_step cts repr (plugin_name h) item s"
  by (cases item) (auto simp: register_dock_widget_def split: sum.splits)

lemma widget_name_of_default:
  "map_of kw ''name'' = None \<Longrightarrow> dunder_name cls = Inr ident \<Longrightarrow>
   widget_name_of cts repr cls kw = Inr (cts ident)"
  by (simp add: widget_name_of_def dict_get_def)

lemma widget_name_of_explicit:
  "map_of kw ''name'' = Some v \<Longrightarrow> py_str repr v \<noteq> [] \<Longrightarrow>
   widget_name_of cts repr cls kw = Inr (py_str repr v)"
  by (simp add: widget_name_of_def dict_get_def)

lemma entries_for_distinct:
  "distinct (map fst d) \<Longrightarrow> entries_for d k = (if has_key d k then 1 else 0)"
  unfolding entries_for_def has_key_def
proof (induction d)
  case Nil
  then show ?case by simp
next
  case (Cons a d)
  then show ?case
  by (auto simp: map_of_eq_None_iff image_iff filter_empty_conv)
qed

lemma store_item_lookup:
  "map_of (dict_get (store_item p name v reg) p []) name = Some v"
  by (simp add: store_item_def dict_get_def update_conv')

lemma store_item_distinct:
  "distinct (map fst (dict_get reg p [])) \<Longrightarrow>
   distinct (map fst (dict_get (store_item p name v reg) p []))"
  by (simp add: store_item_def dict_get_def update_conv' distinct_update)

lemma store_item_has_key:
  "has_key (dict_get (store_item p name v reg) p []) name"
  by (simp add: has_key_def store_item_lookup)

lemma store_item_one_entry:
  "distinct (map fst (dict_get reg p [])) \<Longrightarrow>
   entries_for (dict_get (store_item p name v reg) p []) name = 1"
  by (simp add: entries_for_distinct store_item_distinct store_item_has_key)

lemma function_widget_loop_append:
  "function_widget_loop p (xs @ ys) s =
     (case function_widget_loop p xs s of
        Inl e \<Rightarrow> Inl e
      | Inr s' \<Rightarrow> function_widget_loop p ys s')"
  by (induction xs arbitrary: s) (auto split: sum.splits)

lemma function_widget_step_rejected:
  "\<not> is_FunctionType func \<Longrightarrow>
   function_widget_step p func (fw, ws)
     = Inr (fw, ws @ [NonCallableFunction p function_hook_name func (is_tuple func)])"
  by (simp add: function_widget_step_def)

lemma function_widget_step_accepted:
  "function_widget_step p (PyFunction ident) (fw, ws)
     = Inr (store_item p (replace_underscores ident) (PyFunction ident) fw,
            if has_key (dict_get fw p []) (replace_underscores ident)
            then ws @ [FunctionWidgetOverwritten p (replace_underscores ident)] else ws)"
  by (simp add: function_widget_step_def store_item_def dict_get_def has_key_def Let_def
      split: option.splits)

lemma is_FunctionType_iff: "is_FunctionType func \<longleftrightarrow> (\<exists>ident. func = PyFunction ident)"
  by (cases func) auto

lemma function_widget_step_total: "\<exists>s'. function_widget_step p func s = Inr s'"
  by (cases s; cases "is_FunctionType func")
     (auto simp: function_widget_step_rejected function_widget_step_accepted is_FunctionType_iff)

lemma function_widget_loop_total: "\<exists>s'. function_widget_loop p funcs s = Inr s'"
proof (induction funcs arbitrary: s)
  case Nil
  show ?case by simp
next
  case (Cons f fs)
  obtain s1 where "function_widget_step p f s = Inr s1"
    using function_widget_step_total by blast
  then show ?case using Cons.IH [of s1] by simp
qed

lemma register_function_widget_single:
  "\<not> is_list item \<Longrightarrow>
   register_function_widget item h s = function_widget_step (plugin_name h) item s"
  by (cases item) (auto simp: register_function_widget_def split: sum.splits)

lemma normalize_datum_has_data:
  "normalize_datum name datum = Some d \<Longrightarrow> \<exists>v. map_of d ''data'' = Some v"
  by (cases datum) (auto simp: has_key_def split: if_splits)

lemma sample_data_loop_eq:
  "sample_data_loop p items (acc, ws)
     = Inr (keep_accepted items acc,
            ws @ concat (map (\<lambda>(n, x). sample_rejection p n x) items))"
proof (induction items arbitrary: acc ws)
  case Nil
  show ?case by (simp add: keep_accepted_def)
next
  case (Cons a items)
  obtain n x where a: "a = (n, x)" by (cases a)
  show ?case
  proof (cases "normalize_datum n x")
    case None
    then show ?thesis
      by (simp add: a Cons.IH keep_accepted_def accepted_sample_def sample_rejection_def)
  next
    case (Some d)
    then obtain v where v: "map_of d ''data'' = Some v"
      using normalize_datum_has_data by blast
    show ?thesis
      by (simp add: a Some v Cons.IH keep_accepted_def accepted_sample_def sample_rejection_def)
  qed
qed

lemma keep_accepted_other:
  "name \<notin> fst ` set items \<Longrightarrow> map_of (keep_accepted items acc) name = map_of acc name"
proof (induction items arbitrary: acc)
  case Nil
  show ?case by (simp add: keep_accepted_def)
next
  case (Cons a items)
  obtain n x where a: "a = (n, x)" by (cases a)
  from Cons.prems have ne: "n \<noteq> name" and rest: "name \<notin> fst ` set items"
    by (auto simp: a)
  have "keep_accepted (a # items) acc
      = keep_accepted items (case accepted_sample n x of None \<Rightarrow> acc | Some d \<Rightarrow> AList.update n d acc)"
    by (simp add: keep_accepted_def a)
  then show ?case using Cons.IH [OF rest] ne
    by (simp add: update_conv' split: option.splits)
qed

lemma keep_accepted_entry:
  "distinct (map fst items) \<Longrightarrow> (name, datum) \<in> set items \<Longrightarrow>
   map_of (keep_accepted items acc) name
     = (case accepted_sample name datum of None \<Rightarrow> map_of acc name | Some d \<Rightarrow> Some d)"
proof (induction items arbitrary: acc)
  case Nil
  then show ?case by simp
next
  case (Cons a items)
  obtain n x where a: "a = (n, x)" by (cases a)
  have step: "keep_accepted (a # items) acc
      = keep_accepted items (case accepted_sample n x of None \<Rightarrow> acc | Some d \<Rightarrow> AList.update n d acc)"
    by (simp add: keep_accepted_def a)
  show ?case
  proof (cases "(name, datum) = (n, x)")
    case True
    with Cons.prems have "name \<notin> fst ` set items" by (auto simp: a)
    then show ?thesis using True
      by (simp add: step keep_accepted_other update_conv' split: option.splits)
  next
    case False
    with Cons.prems have mem: "(name, datum) \<in> set items" and d: "distinct (map fst items)"
      by (auto simp: a)
    with Cons.prems have "n \<noteq> name" by (force simp: a)
    then show ?thesis using Cons.IH [OF d mem]
      by (simp add: step update_conv' split: option.splits)
  qed
qed

lemma keep_accepted_distinct:
  "distinct (map fst acc) \<Longrightarrow> distinct (map fst (keep_accepted items acc))"
proof (induction items arbitrary: acc)
  case Nil
  then show ?case by (simp add: keep_accepted_def)
next
  case (Cons a items)
  obtain n x where a: "a = (n, x)" by (cases a)
  have step: "keep_accepted (a # items) acc
      = keep_accepted items (case accepted_sample n x of None \<Rightarrow> acc | Some d \<Rightarrow> AList.update n d acc)"
    by (simp add: keep_accepted_def a)
  show ?case unfolding step
    by (rule Cons.IH) (simp add: Cons.prems distinct_update split: option.splits)
qed

lemma dict_update_lookup:
  "distinct (map fst e) \<Longrightarrow>
   map_of (dict_update d e) k = (case map_of e k of None \<Rightarrow> map_of d k | Some v \<Rightarrow> Some v)"
proof (induction e arbitrary: d)
  case Nil
  show ?case by (simp add: dict_update_def)
next
  case (Cons a e)
  obtain n x where a: "a = (n, x)" by (cases a)
  have step: "dict_update d ((n, x) # e) = dict_update (AList.update n x d) e"
    by (simp add: dict_update_def)
  from Cons.prems have d: "distinct (map fst e)" and n: "n \<notin> fst ` set e"
    by (auto simp: a)
  from n have "map_of e n = None" by (simp add: map_of_eq_None_iff)
  then show ?case using Cons.IH [OF d, of "AList.update n x d"]
    unfolding a step by (auto simp: update_conv' split: option.splits)
qed

lemma dict_update_distinct:
  "distinct (map fst d) \<Longrightarrow> distinct (map fst (dict_update d e))"
proof (induction e arbitrary: d)
  case Nil
  then show ?case by (simp add: dict_update_def)
next
  case (Cons a e)
  obtain n x where a: "a = (n, x)" by (cases a)
  have step: "dict_update d (a # e) = dict_update (AList.update n x d) e"
    by (simp add: dict_update_def a)
  show ?case unfolding step by (rule Cons.IH) (simp add: Cons.prems distinct_update)
qed

lemma register_sample_data_dict:
  "register_sample_data (PyDict items) h (sd, ws)
     = Inr (AList.update (plugin_name h)
              (dict_update (dict_get sd (plugin_name h) []) (keep_accepted items [])) sd,
            ws @ concat (map (\<lambda>(n, x). sample_rejection (plugin_name h) n x) items))"
  by (simp add: register_sample_data_def sample_data_loop_eq)

lemma register_sample_data_entry:
  assumes "distinct (map fst items)" and "(name, datum) \<in> set items"
    and "register_sample_data (PyDict items) h (sd, ws) = Inr (sd', ws')"
  shows "map_of (dict_get sd' (plugin_name h) []) name
     = (case accepted_sample name datum of
          None \<Rightarrow> map_of (dict_get sd (plugin_name h) []) name
        | Some d \<Rightarrow> Some d)"
proof -
  have sd': "sd' = AList.update (plugin_name h)
              (dict_update (dict_get sd (plugin_name h) []) (keep_accepted items [])) sd"
    using assms(3) by (simp add: register_sample_data_dict)
  have "distinct (map fst (keep_accepted items []))"
    by (rule keep_accepted_distinct) simp
  then show ?thesis
    using keep_accepted_entry [OF assms(1,2), of "[]"]
    by (simp add: sd' dict_get_def update_conv' dict_update_lookup split: option.splits)
qed

lemma register_sample_data_warnings:
  assumes "(name, datum) \<in> set items"
    and "register_sample_data (PyDict items) h (sd, ws) = Inr (sd', ws')"
  shows "set (sample_rejection (plugin_name h) name datum) \<subseteq> set ws'"
  using assms by (force simp: register_sample_data_dict)

lemma dock_widget_loop_all_non_callable:
  "\<forall>x \<in> set xs. \<exists>c k. unpack_arg x = Some (c, k) \<and> \<not> callable c \<Longrightarrow>
   \<exists>ws'. dock_widget_loop cts repr p xs (dw, ws) = Inr (dw, ws')"
proof (induction xs arbitrary: ws)
  case Nil
  show ?case by simp
next
  case (Cons x xs)
  then obtain c k where "unpack_arg x = Some (c, k)" "\<not> callable c" by auto
  then have "dock_widget_step cts repr p x (dw, ws)
      = Inr (dw, ws @ [NonCallableWidget p dock_hook_name c])"
    by (rule dock_widget_step_non_callable)
  then show ?case using Cons.IH [of "ws @ [NonCallableWidget p dock_hook_name c]"] Cons.prems
    by simp
qed

lemma dock_widget_step_prefix:
  "dock_widget_step cts repr p x (dw, ws)
     = (case dock_widget_step cts repr p x (dw, []) of
          Inl e \<Rightarrow> Inl e
        | Inr (dw', wn) \<Rightarrow> Inr (dw', ws @ wn))"
  by (simp add: dock_widget_step_def split: option.splits sum.splits pyobj.splits prod.splits)

lemma dock_widget_loop_prefix:
  "dock_widget_loop cts repr p xs (dw, ws)
     = (case dock_widget_loop cts repr p xs (dw, []) of
          Inl e \<Rightarrow> Inl e
        | Inr (dw', wn) \<Rightarrow> Inr (dw', ws @ wn))"
proof (induction xs arbitrary: dw ws)
  case Nil
  show ?case by simp
next
  case (Cons x xs)
  show ?case
  proof (cases "dock_widget_step cts repr p x (dw, [])")
    case (Inl e)
    then show ?thesis using dock_widget_step_prefix [of cts repr p x dw ws] by simp
  next
    case (Inr s1)
    obtain d1 w1 where s1: "s1 = (d1, w1)" by (cases s1)
    have a: "dock_widget_step cts repr p x (dw, ws) = Inr (d1, ws @ w1)"
      using dock_widget_step_prefix [of cts repr p x dw ws] Inr s1 by simp
    show ?thesis
      using Cons.IH [of d1 "ws @ w1"] Cons.IH [of d1 w1] a Inr s1
      by (simp split: sum.splits)
  qed
qed

lemma dock_widget_loop_without:
  assumes u: "unpack_arg item = Some (cls, kw)" and nc: "\<not> callable cls"
  shows "case dock_widget_loop cts repr p (pre @ post) (dw, ws) of
           Inl e \<Rightarrow> dock_widget_loop cts repr p (pre @ item # post) (dw, ws) = Inl e
         | Inr (dw', ws') \<Rightarrow>
             \<exists>ws''. dock_widget_loop cts repr p (pre @ item # post) (dw, ws) = Inr (dw', ws'') \<and>
                    NonCallableWidget p dock_hook_name cls \<in> set ws''"
proof (cases "dock_widget_loop cts repr p pre (dw, ws)")
  case (Inl e)
  then show ?thesis by (simp add: dock_widget_loop_append)
next
  case (Inr s1)
  obtain d1 w1 where s1: "s1 = (d1, w1)" by (cases s1)
  have with_item: "dock_widget_loop cts repr p (pre @ item # post) (dw, ws)
      = dock_widget_loop cts repr p post (d1, w1 @ [NonCallableWidget p dock_hook_name cls])"
    using Inr s1 dock_widget_step_non_callable [OF u nc]
    by (simp add: dock_widget_loop_append)
  have without: "dock_widget_loop cts repr p (pre @ post) (dw, ws)
      = dock_widget_loop cts repr p post (d1, w1)"
    using Inr s1 by (simp add: dock_widget_loop_append)
  show ?thesis
    unfolding with_item without
    using dock_widget_loop_prefix [of cts repr p post d1 w1]
      dock_widget_loop_prefix [of cts repr p post d1 "w1 @ [NonCallableWidget p dock_hook_name cls]"]
    by (auto split: sum.splits)
qed

text \<open>
  C6 (as amended). A dock widget item whose widget object (the item itself, or the first
  element of a tuple) is not callable is discarded: the loop step leaves the registry as
  it was, appends one warning that carries the plugin name and the hook name, and
  returns normally. A hook result that is this item alone gives exactly that, and so
  does a list of such items only. In a list with other items, the call raises exactly
  when the call for the list without the item raises, with the same error; when it
  returns, the registry is the one of the list without the item and the warning for the
  item has been emitted.
\<close>

theorem register_dock_widget_discards_non_callable:
  "(unpack_arg item = Some (cls, kw) \<and> \<not> callable cls \<longrightarrow>
     dock_widget_step cts repr p item (dw, ws)
       = Inr (dw, ws @ [NonCallableWidget p dock_hook_name cls]) \<and>
     (\<not> is_list item \<longrightarrow>
        register_dock_widget cts repr item h (dw, ws)
          = Inr (dw, ws @ [NonCallableWidget (plugin_name h) dock_hook_name cls])) \<and>
     register_dock_widget cts repr (PyList (pre @ item # post)) h s
       = (case dock_widget_loop cts repr (plugin_name h) pre s of
            Inl e \<Rightarrow> Inl e
          | Inr (dw', ws') \<Rightarrow>
              dock_widget_loop cts repr (plugin_name h) post
                (dw', ws' @ [NonCallableWidget (plugin_name h) dock_hook_name cls])) \<and>
     (case register_dock_widget cts repr (PyList (pre @ post)) h (dw, ws) of
        Inl e \<Rightarrow> register_dock_widget cts repr (PyList (pre @ item # post)) h (dw, ws) = Inl e
      | Inr (dw', ws') \<Rightarrow>
          (\<exists>ws''. register_dock_widget cts repr (PyList (pre @ item # post)) h (dw, ws)
                     = Inr (dw', ws'') \<and>
                 NonCallableWidget (plugin_name h) dock_hook_name cls \<in> set ws''))) \<and>
   ((\<forall>x \<in> set xs. \<exists>c k. unpack_arg x = Some (c, k) \<and> \<not> callable c) \<longrightarrow>
      (\<exists>ws'. register_dock_widget cts repr (PyList xs) h (dw, ws) = Inr (dw, ws')))"
proof -
  have only: "\<exists>ws'. register_dock_widget cts repr (PyList xs) h (dw, ws) = Inr (dw, ws')"
    if "\<forall>x \<in> set xs. \<exists>c k. unpack_arg x = Some (c, k) \<and> \<not> callable c"
    unfolding register_dock_widget_def
    using dock_widget_loop_all_non_callable [OF that, of cts repr "plugin_name h" dw ws]
    by simp
  have one: "dock_widget_step cts repr p item (dw, ws)
       = Inr (dw, ws @ [NonCallableWidget p dock_hook_name cls]) \<and>
     (\<not> is_list item \<longrightarrow>
        register_dock_widget cts repr item h (dw, ws)
          = Inr (dw, ws @ [NonCallableWidget (plugin_name h) dock_hook_name cls])) \<and>
     register_dock_widget cts repr (PyList (pre @ item # post)) h s
       = (case dock_widget_loop cts repr (plugin_name h) pre s of
            Inl e \<Rightarrow> Inl e
          | Inr (dw', ws') \<Rightarrow>
              dock_widget_loop cts repr (plugin_name h) post
                (dw', ws' @ [NonCallableWidget (plugin_name h) dock_hook_name cls])) \<and>
     (case register_dock_widget cts repr (PyList (pre @ post)) h (dw, ws) of
        Inl e \<Rightarrow> register_dock_widget cts repr (PyList (pre @ item # post)) h (dw, ws) = Inl e
      | Inr (dw', ws') \<Rightarrow>
          (\<exists>ws''. register_dock_widget cts repr (PyList (pre @ item # post)) h (dw, ws)
                     = Inr (dw', ws'') \<and>
                 NonCallableWidget (plugin_name h) dock_hook_name cls \<in> set ws''))"
    if u: "unpack_arg item = Some (cls, kw)" and nc: "\<not> callable cls"
  proof -
    have step: "dock_widget_step cts repr q item (d, w)
        = Inr (d, w @ [NonCallableWidget q dock_hook_name cls])" for q d w
      using u nc by (rule dock_widget_step_non_callable)
    have single: "\<not> is_list item \<longrightarrow>
          register_dock_widget cts repr item h (dw, ws)
            = Inr (dw, ws @ [NonCallableWidget (plugin_name h) dock_hook_name cls])"
      by (simp add: register_dock_widget_single step)
    have inlist: "register_dock_widget cts repr (PyList (pre @ item # post)) h s
         = (case dock_widget_loop cts repr (plugin_name h) pre s of
              Inl e \<Rightarrow> Inl e
            | Inr (dw', ws') \<Rightarrow>
                dock_widget_loop cts repr (plugin_name h) post
                  (dw', ws' @ [NonCallableWidget (plugin_name h) dock_hook_name cls]))"
      by (simp add: register_dock_widget_def dock_widget_loop_append step split: sum.splits)
    have without: "case register_dock_widget cts repr (PyList (pre @ post)) h (dw, ws) of
        Inl e \<Rightarrow> register_dock_widget cts repr (PyList (pre @ item # post)) h (dw, ws) = Inl e
      | Inr (dw', ws') \<Rightarrow>
          (\<exists>ws''. register_dock_widget cts repr (PyList (pre @ item # post)) h (dw, ws)
                     = Inr (dw', ws'') \<and>
                 NonCallableWidget (plugin_name h) dock_hook_name cls \<in> set ws'')"
    proof -
      have list: "register_dock_widget cts repr (PyList ys) h t
          = dock_widget_loop cts repr (plugin_name h) ys t" for ys t
        by (simp add: register_dock_widget_def)
      show ?thesis unfolding list by (rule dock_widget_loop_without [OF u nc])
    qed
    show ?thesis using step single inlist without by blast
  qed
  from only one show ?thesis by blast
qed

theorem register_dock_widget_discards_non_callable_witness:
  "unpack_arg (PyTuple [PyInt 5, PyDict []]) = Some (PyInt 5, PyDict []) \<and>
   \<not> callable (PyInt 5) \<and> \<not> is_list (PyTuple [PyInt 5, PyDict []]) \<and>
   register_dock_widget (\<lambda>s. s) (\<lambda>x. []) (PyTuple [PyInt 5, PyDict []])
       \<lparr>plugin_name = ''pluginA'', enabled = True\<rparr> ([], [])
     = Inr ([], [NonCallableWidget ''pluginA'' dock_hook_name (PyInt 5)]) \<and>
   register_dock_widget (\<lambda>s. s) (\<lambda>x. [])
       (PyList [PyClass ''WidgetA'', PyTuple [PyInt 5, PyDict []], PyClass ''WidgetB''])
       \<lparr>plugin_name = ''pluginA'', enabled = True\<rparr> ([], [])
     = Inr ([(''pluginA'', [(''WidgetA'', (PyClass ''WidgetA'', [])),
                             (''WidgetB'', (PyClass ''WidgetB'', []))])],
            [NonCallableWidget ''pluginA'' dock_hook_name (PyInt 5)]) \<and>
   register_dock_widget (\<lambda>s. s) (\<lambda>x. []) (PyList [PyClass ''WidgetA'', PyClass ''WidgetB''])
       \<lparr>plugin_name = ''pluginA'', enabled = True\<rparr> ([], [])
     = Inr ([(''pluginA'', [(''WidgetA'', (PyClass ''WidgetA'', [])),
                             (''WidgetB'', (PyClass ''WidgetB'', []))])], []) \<and>
   register_dock_widget (\<lambda>s. s) (\<lambda>x. []) (PyList [PyInt 5, PyTuple [PyStr ''w'']])
       \<lparr>plugin_name = ''pluginA'', enabled = True\<rparr> ([], [])
     = Inr ([], [NonCallableWidget ''pluginA'' dock_hook_name (PyInt 5),
                 NonCallableWidget ''pluginA'' dock_hook_name (PyStr ''w'')])"
  using register_dock_widget_discards_non_callable
    [where item = "PyTuple [PyInt 5, PyDict []]" and cls = "PyInt 5" and kw = "PyDict []"
       and cts = "\<lambda>s. s" and repr = "\<lambda>x. []" and p = "''pluginA''" and dw = "[]" and ws = "[]"
       and h = "\<lparr>plugin_name = ''pluginA'', enabled = True\<rparr>"
       and pre = "[PyClass ''WidgetA'']" and post = "[PyClass ''WidgetB'']" and s = "([], [])"
       and xs = "[PyInt 5, PyTuple [PyStr ''w'']]"]
  by (simp add: register_dock_widget_def dock_widget_step_def widget_name_of_def dict_get_def
      has_key_def)

text \<open>
  The claim C6 as stated fails for a hook result that holds a non-callable object next
  to a callable that has no \<^verbatim>\<open>__name__\<close>: reading the name raises AttributeError, here
  before the non-callable item is reached, so that no warning is emitted either.
\<close>

theorem nameless_callable_raises_counterexample:
  "\<not> callable (PyInt 5) \<and>
   register_dock_widget (\<lambda>s. s) (\<lambda>x. []) (PyList [PyCallable None, PyInt 5])
       \<lparr>plugin_name = ''pluginA'', enabled = True\<rparr> ([], [])
     = Inl AttributeError"
  by (simp add: register_dock_widget_def dock_widget_step_def widget_name_of_def dict_get_def)

lemma widget_name_of_fallback:
  "map_of kw ''name'' = Some v \<Longrightarrow> py_str repr v = [] \<Longrightarrow> dunder_name cls = Inr ident \<Longrightarrow>
   widget_name_of cts repr cls kw = Inr (cts ident)"
  by (simp add: widget_name_of_def dict_get_def)

text \<open>
  C9 (as amended). An accepted dock widget item (a callable with a dict of options) that
  has no \<^verbatim>\<open>'name'\<close> in its options is stored under \<^verbatim>\<open>camel_to_spaces\<close> of its
  \<^verbatim>\<open>__name__\<close>; with a \<^verbatim>\<open>'name'\<close> whose string form is not empty it is stored under that
  string; with a \<^verbatim>\<open>'name'\<close> whose string form is empty it is stored under the
  transformed \<^verbatim>\<open>__name__\<close> again. An accepted function widget item is stored under its
  \<^verbatim>\<open>__name__\<close> with every underscore replaced by a space.
\<close>

theorem registry_key_naming:
  "(unpack_arg item = Some (cls, PyDict kw) \<and> callable cls \<and> dunder_name cls = Inr ident \<and>
    map_of kw ''name'' = None \<longrightarrow>
      (\<exists>ws'. dock_widget_step cts repr p item (dw, ws)
         = Inr (store_item p (cts ident) (cls, kw) dw, ws'))) \<and>
   (unpack_arg item = Some (cls, PyDict kw) \<and> callable cls \<and>
    map_of kw ''name'' = Some v \<and> py_str repr v \<noteq> [] \<longrightarrow>
      (\<exists>ws'. dock_widget_step cts repr p item (dw, ws)
         = Inr (store_item p (py_str repr v) (cls, kw) dw, ws'))) \<and>
   (unpack_arg item = Some (cls, PyDict kw) \<and> callable cls \<and> dunder_name cls = Inr ident \<and>
    map_of kw ''name'' = Some v \<and> py_str repr v = [] \<longrightarrow>
      (\<exists>ws'. dock_widget_step cts repr p item (dw, ws)
         = Inr (store_item p (cts ident) (cls, kw) dw, ws'))) \<and>
   (is_FunctionType func \<and> dunder_name func = Inr fident \<longrightarrow>
      (\<exists>ws'. function_widget_step p func (fw, ws)
         = Inr (store_item p (replace_underscores fident) func fw, ws')))"
proof (intro conjI impI; elim conjE)
  assume "unpack_arg item = Some (cls, PyDict kw)" "callable cls"
    "dunder_name cls = Inr ident" "map_of kw ''name'' = None"
  then show "\<exists>ws'. dock_widget_step cts repr p item (dw, ws)
         = Inr (store_item p (cts ident) (cls, kw) dw, ws')"
    by (simp add: dock_widget_step_accepted widget_name_of_default)
next
  assume "unpack_arg item = Some (cls, PyDict kw)" "callable cls"
    "map_of kw ''name'' = Some v" "py_str repr v \<noteq> []"
  then show "\<exists>ws'. dock_widget_step cts repr p item (dw, ws)
         = Inr (store_item p (py_str repr v) (cls, kw) dw, ws')"
    by (simp add: dock_widget_step_accepted widget_name_of_explicit)
next
  assume "unpack_arg item = Some (cls, PyDict kw)" "callable cls"
    "dunder_name cls = Inr ident" "map_of kw ''name'' = Some v" "py_str repr v = []"
  then show "\<exists>ws'. dock_widget_step cts repr p item (dw, ws)
         = Inr (store_item p (cts ident) (cls, kw) dw, ws')"
    by (simp add: dock_widget_step_accepted widget_name_of_fallback)
next
  assume "is_FunctionType func" "dunder_name func = Inr fident"
  then have "func = PyFunction fident" by (cases func) auto
  then show "\<exists>ws'. function_widget_step p func (fw, ws)
         = Inr (store_item p (replace_underscores fident) func fw, ws')"
    by (simp add: function_widget_step_accepted)
qed

theorem registry_key_naming_witness:
  "dock_widget_step (\<lambda>s. s) (\<lambda>x. []) ''pluginA'' (PyClass ''Widget'') ([], [])
     = Inr ([(''pluginA'', [(''Widget'', (PyClass ''Widget'', []))])], []) \<and>
   dock_widget_step (\<lambda>s. s) (\<lambda>x. []) ''pluginA''
       (PyTuple [PyClass ''Widget'', PyDict [(''name'', PyStr ''My Name'')]]) ([], [])
     = Inr ([(''pluginA'',
              [(''My Name'', (PyClass ''Widget'', [(''name'', PyStr ''My Name'')]))])], []) \<and>
   function_widget_step ''pluginA'' (PyFunction ''my_func'') ([], [])
     = Inr ([(''pluginA'', [(''my func'', PyFunction ''my_func'')])], [])"
  using registry_key_naming
    [of "PyClass ''Widget''" "PyClass ''Widget''" "[]" "''Widget''" "\<lambda>s. s" "\<lambda>x. []"
        "''pluginA''" "[]" "[]" "PyStr ''My Name''" "PyFunction ''my_func''" "''my_func''" "[]"]
    registry_key_naming
    [of "PyTuple [PyClass ''Widget'', PyDict [(''name'', PyStr ''My Name'')]]" "PyClass ''Widget''"
        "[(''name'', PyStr ''My Name'')]" "''Widget''" "\<lambda>s. s" "\<lambda>x. []"
        "''pluginA''" "[]" "[]" "PyStr ''My Name''" "PyFunction ''my_func''" "''my_func''" "[]"]
  by (simp add: dock_widget_step_def function_widget_step_def widget_name_of_def dict_get_def
      has_key_def replace_underscores_def store_item_def Let_def)

text \<open>
  The claim C9 as stated fails for an explicit name that is the empty string: the item
  is stored under the name derived from the class (\<^verbatim>\<open>camel_to_spaces\<close> leaves
  \<^verbatim>\<open>Widget\<close> as it is), not under the name supplied.
\<close>

theorem explicit_empty_name_counterexample:
  "dock_widget_step (\<lambda>s. s) (\<lambda>x. []) ''pluginA''
       (PyTuple [PyClass ''Widget'', PyDict [(''name'', PyStr '''')]]) ([], [])
     = Inr ([(''pluginA'', [(''Widget'', (PyClass ''Widget'', [(''name'', PyStr '''')]))])], [])"
  by (simp add: dock_widget_step_def widget_name_of_def dict_get_def)

text \<open>
  C8 (as amended). An item of a \<^verbatim>\<open>napari_experimental_provide_function\<close> result that is
  a plain function (an instance of \<^verbatim>\<open>FunctionType\<close>) is accepted and stored under its
  name; every other item, callable or not, is discarded with a warning and the registry
  stays as it was. A result that is not a list is processed as one item, each item of a
  list is processed in turn, and the registration never raises.
\<close>

theorem register_function_widget_plain_functions:
  "(is_FunctionType func \<longrightarrow>
      (\<exists>ident ws'. func = PyFunction ident \<and>
         function_widget_step p func (fw, ws)
           = Inr (store_item p (replace_underscores ident) func fw, ws'))) \<and>
   (\<not> is_FunctionType func \<longrightarrow>
      function_widget_step p func (fw, ws)
        = Inr (fw, ws @ [NonCallableFunction p function_hook_name func (is_tuple func)])) \<and>
   (\<not> is_list func \<longrightarrow>
      register_function_widget func h s = function_widget_step (plugin_name h) func s) \<and>
   register_function_widget (PyList (pre @ func # post)) h s
     = (case function_widget_loop (plugin_name h) pre s of
          Inl e \<Rightarrow> Inl e
        | Inr s1 \<Rightarrow>
            (case function_widget_step (plugin_name h) func s1 of
               Inl e \<Rightarrow> Inl e
             | Inr s2 \<Rightarrow> function_widget_loop (plugin_name h) post s2)) \<and>
   (\<exists>s'. register_function_widget args h s = Inr s')"
proof (intro conjI impI)
  assume "is_FunctionType func"
  then obtain ident where "func = PyFunction ident" by (auto simp: is_FunctionType_iff)
  then show "\<exists>ident ws'. func = PyFunction ident \<and>
         function_widget_step p func (fw, ws)
           = Inr (store_item p (replace_underscores ident) func fw, ws')"
    by (simp add: function_widget_step_accepted)
next
  assume "\<not> is_FunctionType func"
  then show "function_widget_step p func (fw, ws)
        = Inr (fw, ws @ [NonCallableFunction p function_hook_name func (is_tuple func)])"
    by (rule function_widget_step_rejected)
next
  assume "\<not> is_list func"
  then show "register_function_widget func h s = function_widget_step (plugin_name h) func s"
    by (rule register_function_widget_single)
next
  show "register_function_widget (PyList (pre @ func # post)) h s
     = (case function_widget_loop (plugin_name h) pre s of
          Inl e \<Rightarrow> Inl e
        | Inr s1 \<Rightarrow>
            (case function_widget_step (plugin_name h) func s1 of
               Inl e \<Rightarrow> Inl e
             | Inr s2 \<Rightarrow> function_widget_loop (plugin_name h) post s2))"
    by (simp add: register_function_widget_def function_widget_loop_append split: sum.splits)
next
  show "\<exists>s'. register_function_widget args h s = Inr s'"
    unfolding register_function_widget_def by (rule function_widget_loop_total)
qed

theorem register_function_widget_plain_functions_witness:
  "is_FunctionType (PyFunction ''my_func'') \<and> \<not> is_FunctionType (PyInt 5) \<and>
   register_function_widget (PyFunction ''my_func'') \<lparr>plugin_name = ''pluginA'', enabled = True\<rparr>
       ([], [])
     = Inr ([(''pluginA'', [(''my func'', PyFunction ''my_func'')])], []) \<and>
   register_function_widget (PyList [PyFunction ''f'', PyInt 5, PyFunction ''g''])
       \<lparr>plugin_name = ''pluginA'', enabled = True\<rparr> ([], [])
     = Inr ([(''pluginA'', [(''f'', PyFunction ''f''), (''g'', PyFunction ''g'')])],
            [NonCallableFunction ''pluginA'' function_hook_name (PyInt 5) False])"
  using register_function_widget_plain_functions
    [where func = "PyFunction ''my_func''" and p = "''pluginA''" and fw = "[]" and ws = "[]"
       and h = "\<lparr>plugin_name = ''pluginA'', enabled = True\<rparr>" and s = "([], [])"
       and pre = "[]" and post = "[]" and args = "PyNone"]
    register_function_widget_plain_functions
    [where func = "PyInt 5" and p = "''pluginA''" and fw = "[]" and ws = "[]"
       and h = "\<lparr>plugin_name = ''pluginA'', enabled = True\<rparr>" and s = "([], [])"
       and pre = "[PyFunction ''f'']" and post = "[PyFunction ''g'']" and args = "PyNone"]
  by (simp add: function_widget_step_def replace_underscores_def store_item_def dict_get_def
      has_key_def Let_def)

text \<open>
  The claim C8 as stated fails for a callable that is not a plain function: a class is
  callable, and it is discarded with the warning.
\<close>

theorem callable_class_rejected_counterexample:
  "callable (PyClass ''Foo'') \<and>
   register_function_widget (PyClass ''Foo'') \<lparr>plugin_name = ''pluginA'', enabled = True\<rparr> ([], [])
     = Inr ([], [NonCallableFunction ''pluginA'' function_hook_name (PyClass ''Foo'') False])"
  by (simp add: register_function_widget_def function_widget_step_def)

lemma register_sample_data_total:
  "\<exists>s'. register_sample_data data h s = Inr s'"
  by (cases s; cases data) (simp_all add: register_sample_data_def sample_data_loop_eq)

lemma register_sample_data_distinct:
  assumes "distinct (map fst (dict_get sd (plugin_name h) []))"
    and "register_sample_data (PyDict items) h (sd, ws) = Inr (sd', ws')"
  shows "distinct (map fst (dict_get sd' (plugin_name h) []))"
  using assms
  by (auto simp: register_sample_data_dict dict_get_def update_conv' dict_update_distinct)

text \<open>
  C5 (as amended). In each of the three registries, registering an accepted item under a
  plugin name and an item name that the registry already holds overwrites the entry,
  leaves exactly one entry under that key and does not raise; the dock widget and the
  function widget registry append the warning that the entry has been overwritten.
\<close>

theorem reregistration_overwrites:
  "(unpack_arg item = Some (cls, PyDict kw) \<and> callable cls \<and>
    widget_name_of cts repr cls kw = Inr name \<and>
    has_key (dict_get dw p []) name \<and> distinct (map fst (dict_get dw p [])) \<longrightarrow>
      (\<exists>dw'. dock_widget_step cts repr p item (dw, ws)
                = Inr (dw', ws @ [DockWidgetOverwritten p name]) \<and>
             map_of (dict_get dw' p []) name = Some (cls, kw) \<and>
             entries_for (dict_get dw' p []) name = 1)) \<and>
   (has_key (dict_get fw p []) (replace_underscores ident) \<and>
    distinct (map fst (dict_get fw p [])) \<longrightarrow>
      (\<exists>fw'. function_widget_step p (PyFunction ident) (fw, ws)
                = Inr (fw', ws @ [FunctionWidgetOverwritten p (replace_underscores ident)]) \<and>
             map_of (dict_get fw' p []) (replace_underscores ident) = Some (PyFunction ident) \<and>
             entries_for (dict_get fw' p []) (replace_underscores ident) = 1)) \<and>
   (distinct (map fst items) \<and> (sname, datum) \<in> set items \<and>
    accepted_sample sname datum = Some d \<and>
    has_key (dict_get sd (plugin_name h) []) sname \<and>
    distinct (map fst (dict_get sd (plugin_name h) [])) \<longrightarrow>
      (\<exists>sd' ws'. register_sample_data (PyDict items) h (sd, ws) = Inr (sd', ws') \<and>
             map_of (dict_get sd' (plugin_name h) []) sname = Some d \<and>
             entries_for (dict_get sd' (plugin_name h) []) sname = 1))"
proof (intro conjI impI; elim conjE)
  assume "unpack_arg item = Some (cls, PyDict kw)" "callable cls"
    "widget_name_of cts repr cls kw = Inr name"
    "has_key (dict_get dw p []) name" "distinct (map fst (dict_get dw p []))"
  then show "\<exists>dw'. dock_widget_step cts repr p item (dw, ws)
                = Inr (dw', ws @ [DockWidgetOverwritten p name]) \<and>
             map_of (dict_get dw' p []) name = Some (cls, kw) \<and>
             entries_for (dict_get dw' p []) name = 1"
    by (simp add: dock_widget_step_accepted store_item_lookup store_item_one_entry)
next
  assume "has_key (dict_get fw p []) (replace_underscores ident)"
    "distinct (map fst (dict_get fw p []))"
  then show "\<exists>fw'. function_widget_step p (PyFunction ident) (fw, ws)
                = Inr (fw', ws @ [FunctionWidgetOverwritten p (replace_underscores ident)]) \<and>
             map_of (dict_get fw' p []) (replace_underscores ident) = Some (PyFunction ident) \<and>
             entries_for (dict_get fw' p []) (replace_underscores ident) = 1"
    by (simp add: function_widget_step_accepted store_item_lookup store_item_one_entry)
next
  assume a: "distinct (map fst items)" "(sname, datum) \<in> set items"
    "accepted_sample sname datum = Some d"
    "has_key (dict_get sd (plugin_name h) []) sname"
    "distinct (map fst (dict_get sd (plugin_name h) []))"
  obtain sd' ws' where r: "register_sample_data (PyDict items) h (sd, ws) = Inr (sd', ws')"
    using register_sample_data_total [of "PyDict items" h "(sd, ws)"] by auto
  have l: "map_of (dict_get sd' (plugin_name h) []) sname = Some d"
    using register_sample_data_entry [OF a(1,2) r] a(3) by simp
  have "distinct (map fst (dict_get sd' (plugin_name h) []))"
    using a(5) r by (rule register_sample_data_distinct)
  then have "entries_for (dict_get sd' (plugin_name h) []) sname = 1"
    using l by (simp add: entries_for_distinct has_key_def)
  with r l show "\<exists>sd' ws'. register_sample_data (PyDict items) h (sd, ws) = Inr (sd', ws') \<and>
             map_of (dict_get sd' (plugin_name h) []) sname = Some d \<and>
             entries_for (dict_get sd' (plugin_name h) []) sname = 1"
    by blast
qed

theorem reregistration_overwrites_witness:
  "dock_widget_step (\<lambda>s. s) (\<lambda>x. []) ''pluginA''
       (PyTuple [PyClass ''Other'', PyDict [(''name'', PyStr ''Widget'')]])
       ([(''pluginA'', [(''Widget'', (PyClass ''Widget'', []))])], [])
     = Inr ([(''pluginA'', [(''Widget'', (PyClass ''Other'', [(''name'', PyStr ''Widget'')]))])],
            [DockWidgetOverwritten ''pluginA'' ''Widget'']) \<and>
   function_widget_step ''pluginA'' (PyFunction ''my_func'')
       ([(''pluginA'', [(''my func'', PyFunction ''my func'')])], [])
     = Inr ([(''pluginA'', [(''my func'', PyFunction ''my_func'')])],
            [FunctionWidgetOverwritten ''pluginA'' ''my func'']) \<and>
   (\<exists>ws'. register_sample_data (PyDict [(''foo'', PyFunction ''make_b'')])
       \<lparr>plugin_name = ''pluginA'', enabled = True\<rparr>
       ([(''pluginA'', [(''foo'', [(''data'', PyFunction ''make_a''),
                                     (''display_name'', PyStr ''foo'')])])], [])
     = Inr ([(''pluginA'', [(''foo'', [(''data'', PyFunction ''make_b''),
                                         (''display_name'', PyStr ''foo'')])])], ws'))"
  using reregistration_overwrites
    [where item = "PyTuple [PyClass ''Other'', PyDict [(''name'', PyStr ''Widget'')]]"
       and cls = "PyClass ''Other''" and kw = "[(''name'', PyStr ''Widget'')]"
       and cts = "\<lambda>s. s" and repr = "\<lambda>x. []" and name = "''Widget''"
       and dw = "[(''pluginA'', [(''Widget'', (PyClass ''Widget'', []))])]" and p = "''pluginA''"
       and ws = "[]" and fw = "[(''pluginA'', [(''my func'', PyFunction ''my func'')])]"
       and ident = "''my_func''" and items = "[(''foo'', PyFunction ''make_b'')]"
       and sname = "''foo''" and datum = "PyFunction ''make_b''"
       and d = "[(''data'', PyFunction ''make_b''), (''display_name'', PyStr ''foo'')]"
       and sd = "[(''pluginA'', [(''foo'', [(''data'', PyFunction ''make_a''),
                                     (''display_name'', PyStr ''foo'')])])]"
       and h = "\<lparr>plugin_name = ''pluginA'', enabled = True\<rparr>"]
  by (simp add: dock_widget_step_def function_widget_step_def widget_name_of_def dict_get_def
      has_key_def replace_underscores_def accepted_sample_def register_sample_data_dict
      keep_accepted_def dict_update_def Let_def)

text \<open>
  The claim C5 as stated fails for the sample data registry: the second registration of
  \<^verbatim>\<open>foo\<close> by the same plugin overwrites the entry and emits no warning.
\<close>

theorem sample_data_overwrite_silent_counterexample:
  "register_sample_data (PyDict [(''foo'', PyFunction ''make_b'')])
       \<lparr>plugin_name = ''pluginA'', enabled = True\<rparr>
       ([(''pluginA'', [(''foo'', [(''data'', PyFunction ''make_a''),
                                     (''display_name'', PyStr ''foo'')])])], [])
     = Inr ([(''pluginA'', [(''foo'', [(''data'', PyFunction ''make_b''),
                                         (''display_name'', PyStr ''foo'')])])], [])"
  by (simp add: register_sample_data_def dict_get_def dict_update_def has_key_def)

text \<open>
  C7. For every entry \<open>(name, datum)\<close> of the mapping a sample data hook returns (a dict,
  so its keys are distinct), \<^verbatim>\<open>register_sample_data\<close> returns normally and: a shorthand
  value (not a dict) that is callable, a string or a path is stored under \<open>name\<close> as
  \<^verbatim>\<open>{'data': datum, 'display_name': name}\<close>; a dict with both keys and a callable, string
  or path under \<^verbatim>\<open>'data'\<close> is stored as it is; a dict that lacks one of the two keys is
  discarded with a warning; and any value whose \<^verbatim>\<open>'data'\<close> is neither callable nor a
  string or path is discarded with a warning. The witness is the hook result
  \<^verbatim>\<open>{"foo": <callable>}\<close>.
\<close>

theorem register_sample_data_normalizes:
  "distinct (map fst items) \<and> (name, datum) \<in> set items \<longrightarrow>
   (\<exists>sd' ws'. register_sample_data (PyDict items) h (sd, ws) = Inr (sd', ws') \<and>
      (\<not> is_dict datum \<and> (callable datum \<or> is_str_or_Path datum) \<longrightarrow>
         map_of (dict_get sd' (plugin_name h) []) name
           = Some [(''data'', datum), (''display_name'', PyStr name)]) \<and>
      (datum = PyDict d \<and> map_of d ''data'' = Some v \<and> has_key d ''display_name'' \<and>
       (callable v \<or> is_str_or_Path v) \<longrightarrow>
         map_of (dict_get sd' (plugin_name h) []) name = Some d) \<and>
      (datum = PyDict d \<and> \<not> (has_key d ''data'' \<and> has_key d ''display_name'') \<longrightarrow>
         map_of (dict_get sd' (plugin_name h) []) name
           = map_of (dict_get sd (plugin_name h) []) name \<and>
         SampleMissingKeys sample_hook_name (plugin_name h) name \<in> set ws') \<and>
      (normalize_datum name datum = Some d \<and> map_of d ''data'' = Some v \<and>
       \<not> (callable v \<or> is_str_or_Path v) \<longrightarrow>
         map_of (dict_get sd' (plugin_name h) []) name
           = map_of (dict_get sd (plugin_name h) []) name \<and>
         InvalidSampleData (plugin_name h) name sample_hook_name v \<in> set ws'))"
proof (intro impI, elim conjE)
  assume di: "distinct (map fst items)" and mem: "(name, datum) \<in> set items"
  obtain sd' ws' where r: "register_sample_data (PyDict items) h (sd, ws) = Inr (sd', ws')"
    using register_sample_data_total [of "PyDict items" h "(sd, ws)"] by auto
  note e = register_sample_data_entry [OF di mem r]
  note w = register_sample_data_warnings [OF mem r]
  have 1: "\<not> is_dict datum \<and> (callable datum \<or> is_str_or_Path datum) \<longrightarrow>
         map_of (dict_get sd' (plugin_name h) []) name
           = Some [(''data'', datum), (''display_name'', PyStr name)]"
    using e by (cases datum) (auto simp: accepted_sample_def)
  have 2: "datum = PyDict d \<and> map_of d ''data'' = Some v \<and> has_key d ''display_name'' \<and>
       (callable v \<or> is_str_or_Path v) \<longrightarrow>
         map_of (dict_get sd' (plugin_name h) []) name = Some d"
    using e by (auto simp: accepted_sample_def has_key_def)
  have 3: "datum = PyDict d \<and> \<not> (has_key d ''data'' \<and> has_key d ''display_name'') \<longrightarrow>
         map_of (dict_get sd' (plugin_name h) []) name
           = map_of (dict_get sd (plugin_name h) []) name \<and>
         SampleMissingKeys sample_hook_name (plugin_name h) name \<in> set ws'"
    using e w by (auto simp: accepted_sample_def sample_rejection_def)
  have 4: "normalize_datum name datum = Some d \<and> map_of d ''data'' = Some v \<and>
       \<not> (callable v \<or> is_str_or_Path v) \<longrightarrow>
         map_of (dict_get sd' (plugin_name h) []) name
           = map_of (dict_get sd (plugin_name h) []) name \<and>
         InvalidSampleData (plugin_name h) name sample_hook_name v \<in> set ws'"
    using e w by (auto simp: accepted_sample_def sample_rejection_def)
  from r 1 2 3 4 show "\<exists>sd' ws'. register_sample_data (PyDict items) h (sd, ws) = Inr (sd', ws') \<and>
      (\<not> is_dict datum \<and> (callable datum \<or> is_str_or_Path datum) \<longrightarrow>
         map_of (dict_get sd' (plugin_name h) []) name
           = Some [(''data'', datum), (''display_name'', PyStr name)]) \<and>
      (datum = PyDict d \<and> map_of d ''data'' = Some v \<and> has_key d ''display_name'' \<and>
       (callable v \<or> is_str_or_Path v) \<longrightarrow>
         map_of (dict_get sd' (plugin_name h) []) name = Some d) \<and>
      (datum = PyDict d \<and> \<not> (has_key d ''data'' \<and> has_key d ''display_name'') \<longrightarrow>
         map_of (dict_get sd' (plugin_name h) []) name
           = map_of (dict_get sd (plugin_name h) []) name \<and>
         SampleMissingKeys sample_hook_name (plugin_name h) name \<in> set ws') \<and>
      (normalize_datum name datum = Some d \<and> map_of d ''data'' = Some v \<and>
       \<not> (callable v \<or> is_str_or_Path v) \<longrightarrow>
         map_of (dict_get sd' (plugin_name h) []) name
           = map_of (dict_get sd (plugin_name h) []) name \<and>
         InvalidSampleData (plugin_name h) name sample_hook_name v \<in> set ws')"
    by blast
qed

theorem register_sample_data_normalizes_witness:
  "callable (PyFunction ''make_foo'') \<and>
   register_sample_data (PyDict [(''foo'', PyFunction ''make_foo'')])
       \<lparr>plugin_name = ''pluginA'', enabled = True\<rparr> ([], [])
     = Inr ([(''pluginA'', [(''foo'', [(''data'', PyFunction ''make_foo''),
                                         (''display_name'', PyStr ''foo'')])])], []) \<and>
   register_sample_data (PyDict [(''bad'', PyInt 5), (''nokeys'', PyDict [(''data'', PyStr ''x'')])])
       \<lparr>plugin_name = ''pluginA'', enabled = True\<rparr> ([], [])
     = Inr ([(''pluginA'', [])],
            [InvalidSampleData ''pluginA'' ''bad'' sample_hook_name (PyInt 5),
             SampleMissingKeys sample_hook_name ''pluginA'' ''nokeys''])"
  using register_sample_data_normalizes
    [where items = "[(''foo'', PyFunction ''make_foo'')]" and name = "''foo''"
       and datum = "PyFunction ''make_foo''" and sd = "[]" and ws = "[]"
       and h = "\<lparr>plugin_name = ''pluginA'', enabled = True\<rparr>"
       and d = "[]" and v = PyNone]
  by (simp add: register_sample_data_def dict_get_def dict_update_def has_key_def)

section \<open>Exporting and importing the call order\<close>

lemma call_order_loop_keys:
  "fst ` set (call_order_loop hooks order)
     = fst ` set order \<union> {s. \<exists>c. (s, c) \<in> set hooks \<and> needs_order c}"
proof (induction hooks arbitrary: order)
  case Nil
  show ?case by simp
next
  case (Cons a hooks)
  obtain s c where a: "a = (s, c)" by (cases a)
  show ?case unfolding a
    by (auto simp: Cons.IH needs_order_def Let_def dom_update)
qed

lemma call_order_loop_lookup:
  "distinct (map fst hooks) \<Longrightarrow>
   map_of (call_order_loop hooks order) s
     = (case map_of hooks s of
          None \<Rightarrow> map_of order s
        | Some c \<Rightarrow> if needs_order c then Some (exported_entries c) else map_of order s)"
proof (induction hooks arbitrary: order)
  case Nil
  show ?case by simp
next
  case (Cons a hooks)
  obtain s' c' where a: "a = (s', c')" by (cases a)
  from Cons.prems have d: "distinct (map fst hooks)" and n: "map_of hooks s' = None"
    by (auto simp: a map_of_eq_None_iff)
  have ih: "map_of (call_order_loop hooks order') s
     = (case map_of hooks s of
          None \<Rightarrow> map_of order' s
        | Some c \<Rightarrow> if needs_order c then Some (exported_entries c) else map_of order' s)"
    for order'
    by (rule Cons.IH [OF d])
  show ?case
  proof (cases "s = s'")
    case True
    then have n': "map_of hooks s = None" and a': "a = (s, c')" using n a by simp_all
    show ?thesis unfolding a'
      by (simp add: ih n' needs_order_def exported_entries_def Let_def update_conv')
  next
    case False
    then show ?thesis unfolding a
      by (simp add: ih needs_order_def Let_def update_conv' split: option.splits)
  qed
qed

lemma has_key_iff: "has_key d k \<longleftrightarrow> k \<in> fst ` set d"
  by (simp add: has_key_def map_of_eq_None_iff)

text \<open>
  C3. The record that \<^verbatim>\<open>call_order\<close> returns has an entry for a spec name exactly when
  the manager has a hook caller of that name that is first-result and has more than one
  implementation. The hooks being a dict (no name twice), the spec of a caller \<open>c\<close> is in
  the record if and only if \<open>c\<close> is first-result and has more than one implementation, so
  a collect-all spec and a spec with at most one implementation never appear; the entry
  lists the implementations in call order.
\<close>

theorem call_order_entries:
  "(has_key (call_order hooks) spec_name \<longleftrightarrow>
      (\<exists>caller. (spec_name, caller) \<in> set hooks \<and> is_firstresult caller \<and>
                length (get_hookimpls caller) > 1)) \<and>
   (distinct (map fst hooks) \<and> map_of hooks spec_name = Some c \<longrightarrow>
      (has_key (call_order hooks) spec_name \<longleftrightarrow>
         is_firstresult c \<and> length (get_hookimpls c) > 1) \<and>
      (is_firstresult c \<and> length (get_hookimpls c) > 1 \<longrightarrow>
         map_of (call_order hooks) spec_name
           = Some (map (\<lambda>impl. \<lparr>plugin = plugin_name impl, enabled_flag = enabled impl\<rparr>)
                     (rev (get_hookimpls c)))))"
proof -
  have 1: "has_key (call_order hooks) spec_name \<longleftrightarrow>
      (\<exists>caller. (spec_name, caller) \<in> set hooks \<and> is_firstresult caller \<and>
                length (get_hookimpls caller) > 1)"
    by (simp add: has_key_iff call_order_def call_order_loop_keys needs_order_def)
  have 2: "has_key (call_order hooks) spec_name \<longleftrightarrow>
         is_firstresult c \<and> length (get_hookimpls c) > 1"
    if "distinct (map fst hooks)" "map_of hooks spec_name = Some c"
    using that
    by (simp add: has_key_def call_order_def call_order_loop_lookup needs_order_def)
  have 3: "map_of (call_order hooks) spec_name
           = Some (map (\<lambda>impl. \<lparr>plugin = plugin_name impl, enabled_flag = enabled impl\<rparr>)
                     (rev (get_hookimpls c)))"
    if "distinct (map fst hooks)" "map_of hooks spec_name = Some c"
      "is_firstresult c \<and> length (get_hookimpls c) > 1"
    using that
    by (simp add: call_order_def call_order_loop_lookup needs_order_def exported_entries_def)
  from 1 2 3 show ?thesis by blast
qed

theorem call_order_entries_witness:
  "call_order
     [(''get_reader'', \<lparr>is_firstresult = True, hookimpls =
         [\<lparr>plugin_name = ''builtins'', enabled = True\<rparr>, \<lparr>plugin_name = ''svg'', enabled = False\<rparr>]\<rparr>),
      (''get_writer'', \<lparr>is_firstresult = True, hookimpls =
         [\<lparr>plugin_name = ''builtins'', enabled = True\<rparr>]\<rparr>),
      (''provide_sample_data'', \<lparr>is_firstresult = False, hookimpls =
         [\<lparr>plugin_name = ''builtins'', enabled = True\<rparr>, \<lparr>plugin_name = ''svg'', enabled = True\<rparr>]\<rparr>)]
   = [(''get_reader'', [\<lparr>plugin = ''svg'', enabled_flag = False\<rparr>,
                         \<lparr>plugin = ''builtins'', enabled_flag = True\<rparr>])] \<and>
   \<not> has_key (call_order
     [(''get_reader'', \<lparr>is_firstresult = True, hookimpls =
         [\<lparr>plugin_name = ''builtins'', enabled = True\<rparr>, \<lparr>plugin_name = ''svg'', enabled = False\<rparr>]\<rparr>),
      (''get_writer'', \<lparr>is_firstresult = True, hookimpls =
         [\<lparr>plugin_name = ''builtins'', enabled = True\<rparr>]\<rparr>),
      (''provide_sample_data'', \<lparr>is_firstresult = False, hookimpls =
         [\<lparr>plugin_name = ''builtins'', enabled = True\<rparr>, \<lparr>plugin_name = ''svg'', enabled = True\<rparr>]\<rparr>)])
     ''get_writer''"
  using call_order_entries
    [where hooks = "[(''get_reader'', \<lparr>is_firstresult = True, hookimpls =
         [\<lparr>plugin_name = ''builtins'', enabled = True\<rparr>, \<lparr>plugin_name = ''svg'', enabled = False\<rparr>]\<rparr>),
      (''get_writer'', \<lparr>is_firstresult = True, hookimpls =
         [\<lparr>plugin_name = ''builtins'', enabled = True\<rparr>]\<rparr>),
      (''provide_sample_data'', \<lparr>is_firstresult = False, hookimpls =
         [\<lparr>plugin_name = ''builtins'', enabled = True\<rparr>, \<lparr>plugin_name = ''svg'', enabled = True\<rparr>]\<rparr>)]"
      and spec_name = "''get_writer''"
      and c = "\<lparr>is_firstresult = True, hookimpls = [\<lparr>plugin_name = ''builtins'', enabled = True\<rparr>]\<rparr>"]
  by (simp add: call_order_def get_hookimpls_def)

lemma assign_enabled_names [simp]:
  "map plugin_name (assign_enabled n b impls) = map plugin_name impls"
  by (induction impls) auto

lemma assign_enabled_missing:
  "n \<notin> plugin_name ` set impls \<Longrightarrow> assign_enabled n b impls = impls"
  by (induction impls) auto

lemma assign_enabled_map:
  "distinct (map plugin_name impls) \<Longrightarrow>
   assign_enabled n b impls
     = map (\<lambda>i. if plugin_name i = n then i\<lparr>enabled := b\<rparr> else i) impls"
proof (induction impls)
  case Nil
  show ?case by simp
next
  case (Cons i impls)
  show ?case
  proof (cases "plugin_name i = n")
    case True
    with Cons.prems have "n \<notin> plugin_name ` set impls" by simp
    then have "\<forall>j \<in> set impls. plugin_name j \<noteq> n" by blast
    then have "map (\<lambda>i. if plugin_name i = n then i\<lparr>enabled := b\<rparr> else i) impls = impls"
      by (simp add: map_idI)
    with True show ?thesis by simp
  next
    case False
    with Cons show ?thesis by simp
  qed
qed

lemma apply_flags_names [simp]:
  "map plugin_name (apply_flags entries impls) = map plugin_name impls"
  unfolding apply_flags_def by (induction entries arbitrary: impls) auto

lemma apply_flags_name_set [simp]:
  "plugin_name ` set (apply_flags entries impls) = plugin_name ` set impls"
  using apply_flags_names [of entries impls] by (metis set_map)

lemma assign_enabled_name_set [simp]:
  "plugin_name ` set (assign_enabled n b impls) = plugin_name ` set impls"
  using assign_enabled_names [of n b impls] by (metis set_map)

lemma apply_flags_Cons:
  "apply_flags (e # es) impls = apply_flags es (assign_enabled (plugin e) (enabled_flag e) impls)"
  by (simp add: apply_flags_def)

lemma apply_flags_snoc:
  "apply_flags (es @ [e]) impls = assign_enabled (plugin e) (enabled_flag e) (apply_flags es impls)"
  by (simp add: apply_flags_def)

lemma get_plugin_implementation_missing:
  "n \<notin> plugin_name ` set (hookimpls c) \<Longrightarrow> get_plugin_implementation c n = Inl KeyError"
  by (auto simp: get_plugin_implementation_def get_hookimpls_def find_None_iff split: option.splits)

lemma get_plugin_implementation_found:
  "n \<in> plugin_name ` set (hookimpls c) \<Longrightarrow>
   \<exists>imp. get_plugin_implementation c n = Inr imp \<and> plugin_name imp = n"
proof -
  assume "n \<in> plugin_name ` set (hookimpls c)"
  then have "find (\<lambda>imp. plugin_name imp = n) (hookimpls c) \<noteq> None"
    by (auto simp: find_None_iff)
  then obtain imp where f: "find (\<lambda>imp. plugin_name imp = n) (hookimpls c) = Some imp"
    by auto
  then have "plugin_name imp = n" by (auto simp: find_Some_iff)
  with f show ?thesis by (simp add: get_plugin_implementation_def get_hookimpls_def)
qed

lemma collect_order_eq:
  "collect_order c es order
     = Inr (c\<lparr>hookimpls := apply_flags es (hookimpls c)\<rparr>,
            order @ filter (\<lambda>n. n \<in> plugin_name ` set (hookimpls c)) (map plugin es))"
proof (induction es arbitrary: c order)
  case Nil
  show ?case by (simp add: apply_flags_def)
next
  case (Cons e es)
  show ?case
  proof (cases "plugin e \<in> plugin_name ` set (hookimpls c)")
    case False
    then show ?thesis
      by (simp add: get_plugin_implementation_missing Cons.IH apply_flags_Cons
          assign_enabled_missing)
  next
    case True
    then obtain imp where "get_plugin_implementation c (plugin e) = Inr imp"
      "plugin_name imp = plugin e"
      using get_plugin_implementation_found by blast
    with True show ?thesis
      by (simp add: Cons.IH apply_flags_Cons)
  qed
qed

lemma reorder_caller_eq: "reorder_caller c es = Inr (reordered c es)"
  by (simp add: reorder_caller_def collect_order_eq reordered_def Let_def)

lemma set_call_order_eq:
  "set_call_order hooks new_order
     = Inr (map (\<lambda>(s, c). (s, reordered c (dict_get new_order s []))) hooks)"
  by (induction hooks) (auto simp: reorder_caller_eq)

lemma map_of_map_keyed:
  "map_of (map (\<lambda>(k, v). (k, f k v)) xs) k = map_option (f k) (map_of xs k)"
  by (induction xs) auto

lemma apply_flags_filter:
  "apply_flags es impls
     = apply_flags (filter (\<lambda>e. plugin e \<in> plugin_name ` set impls) es) impls"
proof (induction es arbitrary: impls)
  case Nil
  show ?case by simp
next
  case (Cons e es)
  show ?case
  proof (cases "plugin e \<in> plugin_name ` set impls")
    case True
    then show ?thesis
      using Cons.IH [of "assign_enabled (plugin e) (enabled_flag e) impls"]
      by (simp add: apply_flags_Cons)
  next
    case False
    then show ?thesis
      using Cons.IH [of impls] by (simp add: apply_flags_Cons assign_enabled_missing)
  qed
qed

lemma reordered_filter:
  "reordered c es = reordered c (filter (\<lambda>e. plugin e \<in> plugin_name ` set (hookimpls c)) es)"
proof -
  have "filter (\<lambda>n. n \<in> plugin_name ` set (hookimpls c)) (map plugin es)
      = map plugin (filter (\<lambda>e. plugin e \<in> plugin_name ` set (hookimpls c)) es)"
    by (simp add: filter_map comp_def)
  then show ?thesis
    using apply_flags_filter [of es "hookimpls c"]
    by (simp add: reordered_def Let_def filter_map comp_def)
qed

lemma front_first_distinct_eq:
  "distinct ns \<Longrightarrow>
   front_first ns d
     = concat (map (\<lambda>n. filter (\<lambda>i. plugin_name i = n) d) ns)
       @ filter (\<lambda>i. plugin_name i \<notin> set ns) d"
proof (induction ns arbitrary: d)
  case Nil
  show ?case by simp
next
  case (Cons n ns)
  then have n: "n \<notin> set ns" and dn: "distinct ns" by auto
  have 1: "filter (\<lambda>i. plugin_name i = m) (filter (\<lambda>i. plugin_name i \<noteq> n) d)
         = filter (\<lambda>i. plugin_name i = m) d" if "m \<in> set ns" for m
  proof -
    from that n have "m \<noteq> n" by auto
    then show ?thesis by (auto intro: filter_cong)
  qed
  have 2: "filter (\<lambda>i. plugin_name i \<notin> set ns) (filter (\<lambda>i. plugin_name i \<noteq> n) d)
         = filter (\<lambda>i. plugin_name i \<notin> set (n # ns)) d"
    by (auto intro: filter_cong)
  have 3: "map (\<lambda>m. filter (\<lambda>i. plugin_name i = m) (filter (\<lambda>i. plugin_name i \<noteq> n) d)) ns
         = map (\<lambda>m. filter (\<lambda>i. plugin_name i = m) d) ns"
    using 1 by (simp cong: map_cong)
  have "front_first (n # ns) d
      = filter (\<lambda>i. plugin_name i = n) d
        @ front_first ns (filter (\<lambda>i. plugin_name i \<noteq> n) d)"
    by simp
  also have "\<dots> = filter (\<lambda>i. plugin_name i = n) d
        @ (concat (map (\<lambda>m. filter (\<lambda>i. plugin_name i = m)
                                (filter (\<lambda>i. plugin_name i \<noteq> n) d)) ns)
           @ filter (\<lambda>i. plugin_name i \<notin> set ns) (filter (\<lambda>i. plugin_name i \<noteq> n) d))"
    by (simp only: Cons.IH [OF dn])
  also have "\<dots> = filter (\<lambda>i. plugin_name i = n) d
        @ (concat (map (\<lambda>m. filter (\<lambda>i. plugin_name i = m) d) ns)
           @ filter (\<lambda>i. plugin_name i \<notin> set (n # ns)) d)"
    by (simp only: 2 3)
  also have "\<dots> = concat (map (\<lambda>m. filter (\<lambda>i. plugin_name i = m) d) (n # ns))
        @ filter (\<lambda>i. plugin_name i \<notin> set (n # ns)) d"
    by simp
  finally show ?case .
qed

lemma filter_flagged:
  "n \<in> S \<Longrightarrow>
   filter (\<lambda>i. plugin_name i \<notin> S)
       (map (\<lambda>i. if plugin_name i = n then i\<lparr>enabled := b\<rparr> else i) xs)
     = filter (\<lambda>i. plugin_name i \<notin> S) xs"
  by (induction xs) auto

lemma filter_names_snoc:
  "filter (\<lambda>i. plugin_name i \<notin> plugin ` set (es @ [x])) ys
     = filter (\<lambda>i. plugin_name i \<noteq> plugin x)
         (filter (\<lambda>i. plugin_name i \<notin> plugin ` set es) ys)"
  by (induction ys) auto

lemma filter_distinct_single:
  "distinct (map f xs) \<Longrightarrow> x \<in> set xs \<Longrightarrow> filter (\<lambda>y. f y = f x) xs = [x]"
proof (induction xs)
  case Nil
  then show ?case by simp
next
  case (Cons a xs)
  show ?case
  proof (cases "a = x")
    case True
    with Cons.prems have "f x \<notin> f ` set xs" by simp
    then have "\<forall>y \<in> set xs. f y \<noteq> f x" by (metis imageI)
    then have "filter (\<lambda>y. f y = f x) xs = []" by (simp add: filter_empty_conv)
    with True show ?thesis by simp
  next
    case False
    with Cons.prems have x: "x \<in> set xs" and d: "distinct (map f xs)" and "f a \<notin> f ` set xs"
      by auto
    then have "f a \<noteq> f x" by (metis imageI)
    then show ?thesis using Cons.IH [OF d x] by simp
  qed
qed

lemma apply_flags_member:
  assumes "distinct (map plugin_name impls)" and "distinct (map plugin es)"
    and "e \<in> set es" and "plugin e \<in> plugin_name ` set impls"
  shows "recorded_impl e \<in> set (apply_flags es impls)"
  using assms(2,3)
proof (induction es rule: rev_induct)
  case Nil
  then show ?case by simp
next
  case (snoc x es)
  have dn: "distinct (map plugin_name (apply_flags es impls))"
    using assms(1) by simp
  have eq: "apply_flags (es @ [x]) impls
      = map (\<lambda>i. if plugin_name i = plugin x then i\<lparr>enabled := enabled_flag x\<rparr> else i)
          (apply_flags es impls)"
    by (simp add: apply_flags_snoc assign_enabled_map [OF dn])
  show ?case
  proof (cases "e = x")
    case True
    from assms(4) have "plugin x \<in> plugin_name ` set (apply_flags es impls)"
      using True by simp
    then obtain i where i: "i \<in> set (apply_flags es impls)" "plugin_name i = plugin x"
      by (metis imageE)
    then have "i\<lparr>enabled := enabled_flag x\<rparr> = recorded_impl x"
      by (simp add: recorded_impl_def)
    with i show ?thesis unfolding eq True by force
  next
    case False
    with snoc.prems have mem: "e \<in> set es" and d: "distinct (map plugin es)"
      and nx: "plugin x \<notin> plugin ` set es"
      by auto
    from nx mem have ne: "plugin e \<noteq> plugin x" by (metis imageI)
    from snoc.IH [OF d mem] have "recorded_impl e \<in> set (apply_flags es impls)" .
    moreover have "plugin_name (recorded_impl e) \<noteq> plugin x"
      using ne by (simp add: recorded_impl_def)
    ultimately show ?thesis unfolding eq by force
  qed
qed

lemma filter_untouched:
  assumes "distinct (map plugin_name impls)"
  shows "filter (\<lambda>i. plugin_name i \<notin> plugin ` set es) (apply_flags es impls)
       = filter (\<lambda>i. plugin_name i \<notin> plugin ` set es) impls"
proof (induction es rule: rev_induct)
  case Nil
  show ?case by (simp add: apply_flags_def)
next
  case (snoc x es)
  have dn: "distinct (map plugin_name (apply_flags es impls))"
    using assms by simp
  have eq: "apply_flags (es @ [x]) impls
      = map (\<lambda>i. if plugin_name i = plugin x then i\<lparr>enabled := enabled_flag x\<rparr> else i)
          (apply_flags es impls)"
    by (simp add: apply_flags_snoc assign_enabled_map [OF dn])
  have "plugin x \<in> plugin ` set (es @ [x])" by simp
  then have "filter (\<lambda>i. plugin_name i \<notin> plugin ` set (es @ [x])) (apply_flags (es @ [x]) impls)
      = filter (\<lambda>i. plugin_name i \<notin> plugin ` set (es @ [x])) (apply_flags es impls)"
    unfolding eq by (rule filter_flagged)
  also have "\<dots> = filter (\<lambda>i. plugin_name i \<noteq> plugin x)
          (filter (\<lambda>i. plugin_name i \<notin> plugin ` set es) (apply_flags es impls))"
    by (rule filter_names_snoc)
  also have "\<dots> = filter (\<lambda>i. plugin_name i \<noteq> plugin x)
          (filter (\<lambda>i. plugin_name i \<notin> plugin ` set es) impls)"
    by (simp only: snoc.IH)
  also have "\<dots> = filter (\<lambda>i. plugin_name i \<notin> plugin ` set (es @ [x])) impls"
    by (rule filter_names_snoc [symmetric])
  finally show ?case .
qed

lemma front_first_recorded:
  assumes dn: "distinct (map plugin_name impls)" and de: "distinct (map plugin es)"
    and sub: "plugin ` set es \<subseteq> plugin_name ` set impls"
  shows "front_first (map plugin es) (rev (apply_flags es impls))
       = map recorded_impl es @ filter (\<lambda>i. plugin_name i \<notin> plugin ` set es) (rev impls)"
proof -
  let ?d = "rev (apply_flags es impls)"
  have dd: "distinct (map plugin_name ?d)"
    using dn by (simp add: rev_map [symmetric])
  have single: "filter (\<lambda>i. plugin_name i = plugin e) ?d = [recorded_impl e]"
    if "e \<in> set es" for e
  proof -
    from that sub have "plugin e \<in> plugin_name ` set impls" by auto
    then have "recorded_impl e \<in> set ?d"
      using apply_flags_member [OF dn de that] by simp
    from filter_distinct_single [OF dd this] show ?thesis
      by (simp add: recorded_impl_def)
  qed
  have "concat (map (\<lambda>n. filter (\<lambda>i. plugin_name i = n) ?d) (map plugin es))
      = concat (map (\<lambda>e. [recorded_impl e]) es)"
    using single by (simp add: comp_def cong: map_cong)
  also have "\<dots> = map recorded_impl es"
    by (induction es) auto
  finally have named: "concat (map (\<lambda>n. filter (\<lambda>i. plugin_name i = n) ?d) (map plugin es))
      = map recorded_impl es" .
  have rest: "filter (\<lambda>i. plugin_name i \<notin> set (map plugin es)) ?d
      = filter (\<lambda>i. plugin_name i \<notin> plugin ` set es) (rev impls)"
    using filter_untouched [OF dn, of es] by (simp add: rev_filter [symmetric])
  show ?thesis
    using front_first_distinct_eq [OF de, of ?d] named rest by simp
qed

lemma dispatch_order_bring_to_front:
  "dispatch_order (bring_to_front ns c) = front_first ns (dispatch_order c)"
  by (simp add: dispatch_order_def bring_to_front_def get_hookimpls_def)

lemma reordered_all_found:
  assumes dn: "distinct (map plugin_name (hookimpls c))" and de: "distinct (map plugin es)"
    and sub: "plugin ` set es \<subseteq> plugin_name ` set (hookimpls c)"
  shows "dispatch_order (reordered c es)
       = map recorded_impl es
         @ filter (\<lambda>i. plugin_name i \<notin> plugin ` set es) (dispatch_order c)"
proof (cases "es = []")
  case True
  then show ?thesis
    by (simp add: reordered_def apply_flags_def dispatch_order_def get_hookimpls_def)
next
  case False
  from sub have "\<forall>n \<in> set (map plugin es). n \<in> plugin_name ` set (hookimpls c)" by auto
  then have all: "filter (\<lambda>n. n \<in> plugin_name ` set (hookimpls c)) (map plugin es) = map plugin es"
    by (simp only: filter_True)
  have "dispatch_order (reordered c es)
      = front_first (map plugin es) (rev (apply_flags es (hookimpls c)))"
    using False
    by (simp add: reordered_def Let_def all dispatch_order_bring_to_front)
       (simp add: dispatch_order_def get_hookimpls_def)
  also have "\<dots> = map recorded_impl es
         @ filter (\<lambda>i. plugin_name i \<notin> plugin ` set es) (rev (hookimpls c))"
    by (rule front_first_recorded [OF dn de sub])
  finally show ?thesis by (simp add: dispatch_order_def get_hookimpls_def)
qed

lemma reordered_is_firstresult [simp]:
  "is_firstresult (reordered c es) = is_firstresult c"
  by (simp add: reordered_def Let_def bring_to_front_def)

lemma set_call_order_total: "\<exists>hooks'. set_call_order hooks new_order = Inr hooks'"
  by (simp add: set_call_order_eq)

text \<open>
  C2 (as amended). Take a call order record that, for a spec, names no plugin twice among
  the plugins that have an implementation for the spec. \<^verbatim>\<open>set_call_order\<close> returns
  normally. For a spec of the manager, let \<open>found\<close> be the recorded entries whose plugin
  has an implementation: the caller after the call is the one that \<open>found\<close> alone gives
  (the other entries are skipped); it is the caller as it was when \<open>found\<close> is empty; and
  the call order afterwards is the plugins of \<open>found\<close> in record order, each with the
  enabled flag recorded, then the other implementations in their previous order.
\<close>

theorem set_call_order_skips_missing:
  "((\<forall>(s, c) \<in> set hooks. distinct (map plugin (found_entries c (dict_get new_order s [])))) \<longrightarrow>
      (\<exists>hooks'. set_call_order hooks new_order = Inr hooks')) \<and>
   (set_call_order hooks new_order = Inr hooks' \<and> map_of hooks spec_name = Some caller \<and>
    distinct (map plugin_name (get_hookimpls caller)) \<and>
    found = found_entries caller (dict_get new_order spec_name []) \<and>
    distinct (map plugin found) \<longrightarrow>
      (\<exists>caller'. map_of hooks' spec_name = Some caller' \<and>
         reorder_caller caller found = Inr caller' \<and>
         is_firstresult caller' = is_firstresult caller \<and>
         (found = [] \<longrightarrow> caller' = caller) \<and>
         dispatch_order caller'
           = map recorded_impl found
             @ filter (\<lambda>i. plugin_name i \<notin> plugin ` set found) (dispatch_order caller)))"
proof (intro conjI impI; (elim conjE)?)
  show "\<exists>hooks'. set_call_order hooks new_order = Inr hooks'"
    by (rule set_call_order_total)
next
  assume r: "set_call_order hooks new_order = Inr hooks'"
    and m: "map_of hooks spec_name = Some caller"
    and dn: "distinct (map plugin_name (get_hookimpls caller))"
    and f: "found = found_entries caller (dict_get new_order spec_name [])"
    and df: "distinct (map plugin found)"
  let ?es = "dict_get new_order spec_name []"
  from r have "hooks' = map (\<lambda>(s, c). (s, reordered c (dict_get new_order s []))) hooks"
    by (simp add: set_call_order_eq)
  then have 1: "map_of hooks' spec_name = Some (reordered caller ?es)"
    using m by (simp add: map_of_map_keyed)
  have 2: "reordered caller ?es = reordered caller found"
    using reordered_filter [of caller ?es] f by (simp add: get_hookimpls_def found_entries_def)
  have 3: "reorder_caller caller found = Inr (reordered caller found)"
    by (rule reorder_caller_eq)
  have 4: "found = [] \<longrightarrow> reordered caller found = caller"
    by (simp add: reordered_def apply_flags_def)
  have sub: "plugin ` set found \<subseteq> plugin_name ` set (hookimpls caller)"
    using f by (auto simp: get_hookimpls_def found_entries_def)
  have 5: "dispatch_order (reordered caller found)
              = map recorded_impl found
                @ filter (\<lambda>i. plugin_name i \<notin> plugin ` set found) (dispatch_order caller)"
    using reordered_all_found [OF _ df sub] dn by (simp add: get_hookimpls_def)
  show "\<exists>caller'. map_of hooks' spec_name = Some caller' \<and>
         reorder_caller caller found = Inr caller' \<and>
         is_firstresult caller' = is_firstresult caller \<and>
         (found = [] \<longrightarrow> caller' = caller) \<and>
         dispatch_order caller'
           = map recorded_impl found
             @ filter (\<lambda>i. plugin_name i \<notin> plugin ` set found) (dispatch_order caller)"
    using 1 2 3 4 5 by simp
qed

lemma recorded_impl_entry:
  "recorded_impl \<lparr>plugin = plugin_name i, enabled_flag = enabled i\<rparr> = i"
  by (cases i) (simp add: recorded_impl_def)

lemma recorded_exported:
  "map recorded_impl (exported_entries c) = dispatch_order c"
  by (simp add: exported_entries_def dispatch_order_def comp_def recorded_impl_entry)

lemma exported_plugins:
  "map plugin (exported_entries c) = map plugin_name (dispatch_order c)"
  by (simp add: exported_entries_def dispatch_order_def comp_def)

text \<open>
  C1. The round trip. For a first-result spec with more than one implementation,
  exporting with \<^verbatim>\<open>call_order\<close> and importing the record with \<^verbatim>\<open>set_call_order\<close> into a
  fresh manager whose caller for the spec holds implementations of the same plugins (in
  any order, with any flags) succeeds and gives that caller the call order of the first
  manager, plugins and enabled flags; exporting from the fresh manager then gives the
  same entry for the spec.
\<close>

theorem call_order_round_trip:
  "distinct (map fst hooks) \<and> map_of hooks spec_name = Some caller \<and>
   is_firstresult caller \<and> length (get_hookimpls caller) > 1 \<and>
   distinct (map plugin_name (get_hookimpls caller)) \<and>
   map_of fresh spec_name = Some caller0 \<and>
   distinct (map plugin_name (get_hookimpls caller0)) \<and>
   plugin_name ` set (get_hookimpls caller0) = plugin_name ` set (get_hookimpls caller) \<longrightarrow>
   (\<exists>fresh' caller'. set_call_order fresh (call_order hooks) = Inr fresh' \<and>
      map_of fresh' spec_name = Some caller' \<and>
      dispatch_order caller' = dispatch_order caller \<and>
      (distinct (map fst fresh) \<and> is_firstresult caller0 \<longrightarrow>
         map_of (call_order fresh') spec_name = map_of (call_order hooks) spec_name))"
proof (intro impI, elim conjE)
  assume dh: "distinct (map fst hooks)" and m: "map_of hooks spec_name = Some caller"
    and fr: "is_firstresult caller" and len: "length (get_hookimpls caller) > 1"
    and dn: "distinct (map plugin_name (get_hookimpls caller))"
    and m0: "map_of fresh spec_name = Some caller0"
    and dn0: "distinct (map plugin_name (get_hookimpls caller0))"
    and same: "plugin_name ` set (get_hookimpls caller0) = plugin_name ` set (get_hookimpls caller)"
  let ?es = "exported_entries caller"
  define fresh' where
    "fresh' = map (\<lambda>(s, c). (s, reordered c (dict_get (call_order hooks) s []))) fresh"
  define caller' where "caller' = reordered caller0 ?es"
  have no: "needs_order caller" using fr len by (simp add: needs_order_def)
  have rec: "map_of (call_order hooks) spec_name = Some ?es"
    using dh m no by (simp add: call_order_def call_order_loop_lookup)
  then have get: "dict_get (call_order hooks) spec_name [] = ?es"
    by (simp add: dict_get_def)
  have r: "set_call_order fresh (call_order hooks) = Inr fresh'"
    unfolding fresh'_def by (rule set_call_order_eq)
  have l: "map_of fresh' spec_name = Some caller'"
    unfolding fresh'_def caller'_def using m0 get by (simp add: map_of_map_keyed)
  have de: "distinct (map plugin ?es)"
    using dn by (simp add: exported_plugins dispatch_order_def rev_map [symmetric])
  have names: "plugin ` set ?es = plugin_name ` set (hookimpls caller)"
    using exported_plugins [of caller]
    by (metis dispatch_order_def get_hookimpls_def set_map set_rev)
  then have sub: "plugin ` set ?es \<subseteq> plugin_name ` set (hookimpls caller0)"
    using same by (simp add: get_hookimpls_def)
  have "filter (\<lambda>i. plugin_name i \<notin> plugin ` set ?es) (dispatch_order caller0) = []"
    using names same by (auto simp: filter_empty_conv dispatch_order_def get_hookimpls_def)
  then have d: "dispatch_order caller' = dispatch_order caller"
    unfolding caller'_def using reordered_all_found [OF _ de sub] dn0
    by (simp add: get_hookimpls_def recorded_exported)
  have again: "map_of (call_order fresh') spec_name = map_of (call_order hooks) spec_name"
    if df: "distinct (map fst fresh)" and fr0: "is_firstresult caller0"
  proof -
    have "map fst fresh' = map fst fresh" unfolding fresh'_def by (induction fresh) auto
    then have dk: "distinct (map fst fresh')" using df by simp
    from d have h: "get_hookimpls caller' = get_hookimpls caller"
      by (simp add: dispatch_order_def)
    have "is_firstresult caller'" unfolding caller'_def using fr0 by simp
    then have n': "needs_order caller'"
      using h len by (simp add: needs_order_def)
    have e': "exported_entries caller' = ?es"
      using h by (simp add: exported_entries_def)
    have "map_of (call_order fresh') spec_name = Some (exported_entries caller')"
      using l n' by (simp add: call_order_def call_order_loop_lookup [OF dk])
    then show ?thesis using e' rec by simp
  qed
  from r l d again show "\<exists>fresh' caller'. set_call_order fresh (call_order hooks) = Inr fresh' \<and>
      map_of fresh' spec_name = Some caller' \<and>
      dispatch_order caller' = dispatch_order caller \<and>
      (distinct (map fst fresh) \<and> is_firstresult caller0 \<longrightarrow>
         map_of (call_order fresh') spec_name = map_of (call_order hooks) spec_name)"
    by blast
qed

theorem set_call_order_skips_missing_witness:
  "found_entries
     \<lparr>is_firstresult = True, hookimpls =
         [\<lparr>plugin_name = ''builtins'', enabled = True\<rparr>, \<lparr>plugin_name = ''svg'', enabled = True\<rparr>,
          \<lparr>plugin_name = ''tiff'', enabled = True\<rparr>]\<rparr>
     [\<lparr>plugin = ''builtins'', enabled_flag = False\<rparr>, \<lparr>plugin = ''gone'', enabled_flag = True\<rparr>,
      \<lparr>plugin = ''svg'', enabled_flag = True\<rparr>]
   = [\<lparr>plugin = ''builtins'', enabled_flag = False\<rparr>, \<lparr>plugin = ''svg'', enabled_flag = True\<rparr>] \<and>
   set_call_order
     [(''get_reader'', \<lparr>is_firstresult = True, hookimpls =
         [\<lparr>plugin_name = ''builtins'', enabled = True\<rparr>, \<lparr>plugin_name = ''svg'', enabled = True\<rparr>,
          \<lparr>plugin_name = ''tiff'', enabled = True\<rparr>]\<rparr>)]
     [(''get_reader'', [\<lparr>plugin = ''builtins'', enabled_flag = False\<rparr>,
                         \<lparr>plugin = ''gone'', enabled_flag = True\<rparr>,
                         \<lparr>plugin = ''svg'', enabled_flag = True\<rparr>])]
   = Inr [(''get_reader'', \<lparr>is_firstresult = True, hookimpls =
         [\<lparr>plugin_name = ''tiff'', enabled = True\<rparr>, \<lparr>plugin_name = ''svg'', enabled = True\<rparr>,
          \<lparr>plugin_name = ''builtins'', enabled = False\<rparr>]\<rparr>)] \<and>
   dispatch_order \<lparr>is_firstresult = True, hookimpls =
         [\<lparr>plugin_name = ''tiff'', enabled = True\<rparr>, \<lparr>plugin_name = ''svg'', enabled = True\<rparr>,
          \<lparr>plugin_name = ''builtins'', enabled = False\<rparr>]\<rparr>
   = [\<lparr>plugin_name = ''builtins'', enabled = False\<rparr>, \<lparr>plugin_name = ''svg'', enabled = True\<rparr>,
      \<lparr>plugin_name = ''tiff'', enabled = True\<rparr>]"
  using set_call_order_skips_missing
    [where hooks = "[(''get_reader'', \<lparr>is_firstresult = True, hookimpls =
         [\<lparr>plugin_name = ''builtins'', enabled = True\<rparr>, \<lparr>plugin_name = ''svg'', enabled = True\<rparr>,
          \<lparr>plugin_name = ''tiff'', enabled = True\<rparr>]\<rparr>)]"
      and new_order = "[(''get_reader'', [\<lparr>plugin = ''builtins'', enabled_flag = False\<rparr>,
                         \<lparr>plugin = ''gone'', enabled_flag = True\<rparr>,
                         \<lparr>plugin = ''svg'', enabled_flag = True\<rparr>])]"
      and hooks' = "[(''get_reader'', \<lparr>is_firstresult = True, hookimpls =
         [\<lparr>plugin_name = ''tiff'', enabled = True\<rparr>, \<lparr>plugin_name = ''svg'', enabled = True\<rparr>,
          \<lparr>plugin_name = ''builtins'', enabled = False\<rparr>]\<rparr>)]"
      and spec_name = "''get_reader''"
      and caller = "\<lparr>is_firstresult = True, hookimpls =
         [\<lparr>plugin_name = ''builtins'', enabled = True\<rparr>, \<lparr>plugin_name = ''svg'', enabled = True\<rparr>,
          \<lparr>plugin_name = ''tiff'', enabled = True\<rparr>]\<rparr>"
      and found = "[\<lparr>plugin = ''builtins'', enabled_flag = False\<rparr>,
                    \<lparr>plugin = ''svg'', enabled_flag = True\<rparr>]"]
  by (simp add: reorder_caller_def get_plugin_implementation_def get_hookimpls_def
      bring_to_front_def dispatch_order_def dict_get_def recorded_impl_def found_entries_def)

text \<open>
  The claim C2 as stated fails for a record that names a plugin twice: \<^verbatim>\<open>svg\<close> has an
  implementation and is recorded as enabled and, after a plugin that is not installed,
  as disabled. The call returns, \<^verbatim>\<open>svg\<close> ends up disabled, and the call order is not
  the remaining entries in record order with their recorded flags.
\<close>

theorem repeated_plugin_counterexample:
  "set_call_order
     [(''get_reader'', \<lparr>is_firstresult = True, hookimpls =
         [\<lparr>plugin_name = ''builtins'', enabled = True\<rparr>, \<lparr>plugin_name = ''svg'', enabled = True\<rparr>]\<rparr>)]
     [(''get_reader'', [\<lparr>plugin = ''svg'', enabled_flag = True\<rparr>,
                         \<lparr>plugin = ''gone'', enabled_flag = True\<rparr>,
                         \<lparr>plugin = ''svg'', enabled_flag = False\<rparr>])]
   = Inr [(''get_reader'', \<lparr>is_firstresult = True, hookimpls =
         [\<lparr>plugin_name = ''builtins'', enabled = True\<rparr>, \<lparr>plugin_name = ''svg'', enabled = False\<rparr>]\<rparr>)] \<and>
   dispatch_order \<lparr>is_firstresult = True, hookimpls =
         [\<lparr>plugin_name = ''builtins'', enabled = True\<rparr>, \<lparr>plugin_name = ''svg'', enabled = False\<rparr>]\<rparr>
   = [\<lparr>plugin_name = ''svg'', enabled = False\<rparr>, \<lparr>plugin_name = ''builtins'', enabled = True\<rparr>] \<and>
   map recorded_impl
     (found_entries
        \<lparr>is_firstresult = True, hookimpls =
           [\<lparr>plugin_name = ''builtins'', enabled = True\<rparr>, \<lparr>plugin_name = ''svg'', enabled = True\<rparr>]\<rparr>
        [\<lparr>plugin = ''svg'', enabled_flag = True\<rparr>, \<lparr>plugin = ''gone'', enabled_flag = True\<rparr>,
         \<lparr>plugin = ''svg'', enabled_flag = False\<rparr>])
   = [\<lparr>plugin_name = ''svg'', enabled = True\<rparr>, \<lparr>plugin_name = ''svg'', enabled = False\<rparr>]"
  by (simp add: reorder_caller_def get_plugin_implementation_def get_hookimpls_def
      bring_to_front_def dispatch_order_def dict_get_def recorded_impl_def found_entries_def)

theorem call_order_round_trip_witness:
  "call_order
     [(''get_reader'', \<lparr>is_firstresult = True, hookimpls =
         [\<lparr>plugin_name = ''builtins'', enabled = True\<rparr>, \<lparr>plugin_name = ''svg'', enabled = False\<rparr>]\<rparr>)]
   = [(''get_reader'', [\<lparr>plugin = ''svg'', enabled_flag = False\<rparr>,
                         \<lparr>plugin = ''builtins'', enabled_flag = True\<rparr>])] \<and>
   set_call_order
     [(''get_reader'', \<lparr>is_firstresult = True, hookimpls =
         [\<lparr>plugin_name = ''svg'', enabled = True\<rparr>, \<lparr>plugin_name = ''builtins'', enabled = True\<rparr>]\<rparr>)]
     (call_order
       [(''get_reader'', \<lparr>is_firstresult = True, hookimpls =
         [\<lparr>plugin_name = ''builtins'', enabled = True\<rparr>, \<lparr>plugin_name = ''svg'', enabled = False\<rparr>]\<rparr>)])
   = Inr [(''get_reader'', \<lparr>is_firstresult = True, hookimpls =
         [\<lparr>plugin_name = ''builtins'', enabled = True\<rparr>, \<lparr>plugin_name = ''svg'', enabled = False\<rparr>]\<rparr>)]"
  using call_order_round_trip
    [where hooks = "[(''get_reader'', \<lparr>is_firstresult = True, hookimpls =
         [\<lparr>plugin_name = ''builtins'', enabled = True\<rparr>, \<lparr>plugin_name = ''svg'', enabled = False\<rparr>]\<rparr>)]"
      and spec_name = "''get_reader''"
      and caller = "\<lparr>is_firstresult = True, hookimpls =
         [\<lparr>plugin_name = ''builtins'', enabled = True\<rparr>, \<lparr>plugin_name = ''svg'', enabled = False\<rparr>]\<rparr>"
      and fresh = "[(''get_reader'', \<lparr>is_firstresult = True, hookimpls =
         [\<lparr>plugin_name = ''svg'', enabled = True\<rparr>, \<lparr>plugin_name = ''builtins'', enabled = True\<rparr>]\<rparr>)]"
      and caller0 = "\<lparr>is_firstresult = True, hookimpls =
         [\<lparr>plugin_name = ''svg'', enabled = True\<rparr>, \<lparr>plugin_name = ''builtins'', enabled = True\<rparr>]\<rparr>"]
  by (simp add: call_order_def reorder_caller_def get_plugin_implementation_def get_hookimpls_def
      bring_to_front_def dispatch_order_def dict_get_def)

end
